theory Spec2Isabelle
  imports Main "HOL-Library.Sublist"
begin

section \<open>Python values, errors and strings\<close>

text \<open>
  The generator of \<^verbatim>\<open>src/py2puml/puml_generator.py\<close> is embedded function by function.
  Exceptions are values of \<open>error\<close>; a method that can raise returns \<open>error + 'a\<close> with
  \<open>Inl\<close> the exception.
\<close>

datatype error = IndexError | ValueError | AssertionError | AttributeError | TypeError

text \<open>
  The option accessors return what the Python expression \<^verbatim>\<open>self.config and ...\<close> returns:
  \<^verbatim>\<open>None\<close> itself when the configuration is \<^verbatim>\<open>None\<close>, otherwise a boolean, a string or
  a list of strings.
\<close>

datatype pyval = PNone | PBool bool | PStr string | PList "string list"

text \<open>Python truthiness: \<^verbatim>\<open>None\<close>, \<^verbatim>\<open>False\<close>, the empty string and the empty list are false.\<close>

fun truthy :: "pyval \<Rightarrow> bool" where
  "truthy PNone = False"
| "truthy (PBool b) = b"
| "truthy (PStr s) = (s \<noteq> [])"
| "truthy (PList xs) = (xs \<noteq> [])"

text \<open>\<^verbatim>\<open>TAB = '  '\<close>\<close>

definition TAB :: string where
  "TAB = ''  ''"

text \<open>
  \<^verbatim>\<open>str.rstrip()\<close> removes trailing whitespace. Strings are byte strings here, so the
  whitespace characters are the ASCII ones of \<^verbatim>\<open>str.isspace\<close>: tab, line feed, vertical tab,
  form feed, carriage return, the separators 0x1c to 0x1f and the space.
\<close>

definition is_space :: "char \<Rightarrow> bool" where
  "is_space c = (c \<in> set [CHR 0x09, CHR 0x0A, CHR 0x0B, CHR 0x0C, CHR 0x0D,
                            CHR 0x1C, CHR 0x1D, CHR 0x1E, CHR 0x1F, CHR 0x20])"

definition rstrip :: "string \<Rightarrow> string" where
  "rstrip s = rev (dropWhile is_space (rev s))"

text \<open>\<^verbatim>\<open>s.split(c)\<close> for a separator of one character: the result is never empty.\<close>

fun split_chr :: "char \<Rightarrow> string \<Rightarrow> string list" where
  "split_chr c [] = [[]]"
| "split_chr c (x # xs) =
     (if x = c then [] # split_chr c xs
      else (case split_chr c xs of [] \<Rightarrow> [[x]] | w # ws \<Rightarrow> (x # w) # ws))"

text \<open>\<^verbatim>\<open>sep.join(xs)\<close>\<close>

fun join :: "string \<Rightarrow> string list \<Rightarrow> string" where
  "join sep [] = []"
| "join sep [x] = x"
| "join sep (x # y # ys) = x @ sep @ join sep (y # ys)"

text \<open>\<^verbatim>\<open>name in s\<close> for strings: \<open>name\<close> occurs in \<open>s\<close> as a contiguous substring.\<close>

fun py_in :: "string \<Rightarrow> string \<Rightarrow> bool" where
  "py_in name [] = (name = [])"
| "py_in name (x # xs) = (take (length name) (x # xs) = name \<or> py_in name xs)"

text \<open>\<^verbatim>\<open>str.lower()\<close> on ASCII letters.\<close>

definition lower_chr :: "char \<Rightarrow> char" where
  "lower_chr c =
     (case map_of (zip ''ABCDEFGHIJKLMNOPQRSTUVWXYZ'' ''abcdefghijklmnopqrstuvwxyz'') c of
        None \<Rightarrow> c | Some d \<Rightarrow> d)"

definition lower :: "string \<Rightarrow> string" where
  "lower s = map lower_chr s"

section \<open>Configuration and option accessors\<close>

text \<open>
  The configuration is a \<^verbatim>\<open>ConfigParser\<close> or \<^verbatim>\<open>None\<close>. A parser is modelled by the values
  it holds: \<open>cfg section option\<close> is \<open>Some v\<close> when the option is present in the section
  and \<open>None\<close> when the section or the option is missing. A \<^verbatim>\<open>ConfigParser\<close> object is
  always true in a boolean context (its length counts the default section), so
  \<^verbatim>\<open>self.config and e\<close> is \<^verbatim>\<open>None\<close> for no configuration and \<^verbatim>\<open>e\<close> otherwise.
\<close>

type_synonym config = "string \<Rightarrow> string \<Rightarrow> string option"

text \<open>\<^verbatim>\<open>config.get(section, option, fallback=fb)\<close>\<close>

definition cfg_get :: "config \<Rightarrow> string \<Rightarrow> string \<Rightarrow> pyval \<Rightarrow> pyval" where
  "cfg_get cfg section option fb =
     (case cfg section option of None \<Rightarrow> fb | Some v \<Rightarrow> PStr v)"

text \<open>
  \<^verbatim>\<open>config.getboolean(section, option, fallback=fb)\<close>: the fallback when the option
  is missing, else the value converted through \<^verbatim>\<open>BOOLEAN_STATES\<close>; a value outside the
  table raises \<^verbatim>\<open>ValueError\<close>.
\<close>

definition cfg_getboolean :: "config \<Rightarrow> string \<Rightarrow> string \<Rightarrow> bool \<Rightarrow> error + pyval" where
  "cfg_getboolean cfg section option fb =
     (case cfg section option of
        None \<Rightarrow> Inr (PBool fb)
      | Some v \<Rightarrow>
          (if lower v \<in> set [''1'', ''yes'', ''true'', ''on''] then Inr (PBool True)
           else if lower v \<in> set [''0'', ''no'', ''false'', ''off''] then Inr (PBool False)
           else Inl ValueError))"

definition opt_prolog :: "config option \<Rightarrow> pyval" where
  "opt_prolog config =
     (case config of None \<Rightarrow> PNone
      | Some cfg \<Rightarrow> cfg_get cfg ''puml'' ''prolog'' (PStr ''''))"

definition opt_epilog :: "config option \<Rightarrow> pyval" where
  "opt_epilog config =
     (case config of None \<Rightarrow> PNone
      | Some cfg \<Rightarrow> cfg_get cfg ''puml'' ''epilog'' (PStr ''''))"

definition opt_globals :: "config option \<Rightarrow> error + pyval" where
  "opt_globals config =
     (case config of None \<Rightarrow> Inr PNone
      | Some cfg \<Rightarrow> cfg_getboolean cfg ''module'' ''write-globals'' False)"

definition opt_omit_self :: "config option \<Rightarrow> error + pyval" where
  "opt_omit_self config =
     (case config of None \<Rightarrow> Inr PNone
      | Some cfg \<Rightarrow> cfg_getboolean cfg ''methods'' ''omit-self'' False)"

definition opt_write_arglist :: "config option \<Rightarrow> string \<Rightarrow> error + pyval" where
  "opt_write_arglist config section =
     (case config of None \<Rightarrow> Inr (PBool True)
      | Some cfg \<Rightarrow> cfg_getboolean cfg section ''write-arg-list'' True)"

definition opt_omit_defaults :: "config option \<Rightarrow> string \<Rightarrow> error + pyval" where
  "opt_omit_defaults config section =
     (case config of None \<Rightarrow> Inr PNone
      | Some cfg \<Rightarrow> cfg_getboolean cfg section ''omit-defaults'' False)"

text \<open>
  \<^verbatim>\<open>opt_builtin_types\<close> evaluates the configured text with Python's \<^verbatim>\<open>eval\<close>, which is
  the parameter \<open>py_eval\<close> here.
\<close>

definition opt_builtin_types ::
  "(string \<Rightarrow> error + pyval) \<Rightarrow> config option \<Rightarrow> string \<Rightarrow> error + pyval" where
  "opt_builtin_types py_eval config section =
     (case config of None \<Rightarrow> Inr (PList [])
      | Some cfg \<Rightarrow>
          (case cfg_get cfg section ''built-in-types'' (PStr ''[]'') of
             PStr txt \<Rightarrow> py_eval txt
           | _ \<Rightarrow> Inl ValueError))"

section \<open>Generator state and output\<close>

text \<open>
  The two classes of the module. A method of \<^verbatim>\<open>PUML_Generator\<close> that calls
  \<^verbatim>\<open>self.output\<close> reaches the override of \<^verbatim>\<open>PUML_Generator_NS\<close> when the object is
  of that class; \<open>cls\<close> records the class of the object.
\<close>

datatype gen_class = PUML_Generator | PUML_Generator_NS

text \<open>
  The attributes of a generator. The two streams hold the texts written to them, one
  element for each call of \<^verbatim>\<open>print\<close>; the file's content is their concatenation.
  \<open>root\<close> and \<open>namespaces\<close> are the attributes that \<^verbatim>\<open>PUML_Generator_NS\<close> adds.
\<close>

record generator =
  cls :: gen_class
  dest :: "string list"
  footer_dest :: "string list"
  in_footer :: bool
  config :: "config option"
  sourcename :: "string option"
  class_in_module :: "string \<rightharpoonup> string"
  inherit_relations :: "(string \<times> string) list"
  root :: string
  namespaces :: "string list"

text \<open>The constructors: both streams start with nothing written by the generator.\<close>

definition PUML_Generator_init :: "config option \<Rightarrow> generator" where
  "PUML_Generator_init c =
     \<lparr>cls = PUML_Generator, dest = [], footer_dest = [], in_footer = False, config = c,
      sourcename = None, class_in_module = Map.empty, inherit_relations = [],
      root = [], namespaces = []\<rparr>"

definition PUML_Generator_NS_init :: "string \<Rightarrow> config option \<Rightarrow> generator" where
  "PUML_Generator_NS_init r c =
     (PUML_Generator_init c)\<lparr>cls := PUML_Generator_NS, root := r, namespaces := []\<rparr>"

text \<open>\<^verbatim>\<open>print(*args)\<close> of strings: the arguments separated by a space, then a line feed.\<close>

definition print_text :: "string list \<Rightarrow> string" where
  "print_text args = join '' '' args @ [CHR 0x0A]"

definition PUML_Generator_output :: "generator \<Rightarrow> string list \<Rightarrow> generator" where
  "PUML_Generator_output s args =
     (if in_footer s then s\<lparr>footer_dest := footer_dest s @ [print_text args]\<rparr>
      else s\<lparr>dest := dest s @ [print_text args]\<rparr>)"

text \<open>\<^verbatim>\<open>depth\<close>: the number of open namespaces.\<close>

definition depth :: "generator \<Rightarrow> nat" where
  "depth s = length (namespaces s)"

text \<open>
  The override writes the indentation to \<^verbatim>\<open>self.dest\<close> (whatever \<^verbatim>\<open>in_footer\<close> is)
  when a namespace is open, then calls the base method.
\<close>

definition PUML_Generator_NS_output :: "generator \<Rightarrow> string list \<Rightarrow> generator" where
  "PUML_Generator_NS_output s args =
     PUML_Generator_output
       (if namespaces s \<noteq> [] then s\<lparr>dest := dest s @ [concat (replicate (depth s) TAB)]\<rparr>
        else s)
       args"

text \<open>\<^verbatim>\<open>self.output(...)\<close>, resolved on the class of the object.\<close>

definition self_output :: "generator \<Rightarrow> string list \<Rightarrow> generator" where
  "self_output s args =
     (case cls s of
        PUML_Generator \<Rightarrow> PUML_Generator_output s args
      | PUML_Generator_NS \<Rightarrow> PUML_Generator_NS_output s args)"

definition PUML_Generator_start_file :: "generator \<Rightarrow> string \<Rightarrow> generator" where
  "PUML_Generator_start_file s src = s\<lparr>sourcename := Some src\<rparr>"

definition end_file :: "generator \<Rightarrow> generator" where
  "end_file s = s\<lparr>sourcename := None\<rparr>"

definition header :: "generator \<Rightarrow> generator" where
  "header s =
     (case config s of
        None \<Rightarrow> s
      | Some cfg \<Rightarrow>
          (case cfg_get cfg ''puml'' ''prolog'' PNone of
             PStr prolog \<Rightarrow> if prolog \<noteq> [] then self_output s [prolog @ [CHR 0x0A]] else s
           | _ \<Rightarrow> s))"

section \<open>Footer: the deferred inheritance relations\<close>

text \<open>
  The loop of \<^verbatim>\<open>footer\<close> over \<^verbatim>\<open>self.inherit_relations\<close>: each endpoint is prefixed
  with its entry of \<^verbatim>\<open>self.class_in_module\<close> when it is a key of the dictionary.
\<close>

fun footer_relations :: "generator \<Rightarrow> (string \<times> string) list \<Rightarrow> generator" where
  "footer_relations s [] = s"
| "footer_relations s ((base, derived) # rest) =
     (let fmt_base = (case class_in_module s base of None \<Rightarrow> base | Some ns \<Rightarrow> ns @ base);
          fmt_derived = (case class_in_module s derived of None \<Rightarrow> derived
                         | Some ns \<Rightarrow> ns @ derived)
      in footer_relations (self_output s [fmt_base, ''<|--'', fmt_derived]) rest)"

definition PUML_Generator_footer :: "generator \<Rightarrow> generator" where
  "PUML_Generator_footer s =
     (let s1 = s\<lparr>in_footer := True\<rparr>;
          s2 = footer_relations s1 (inherit_relations s1);
          s3 = (case config s2 of
                  None \<Rightarrow> s2
                | Some cfg \<Rightarrow>
                    (case cfg_get cfg ''puml'' ''epilog'' PNone of
                       PStr epilog \<Rightarrow>
                         if epilog \<noteq> [] then self_output s2 [epilog @ [CHR 0x0A]] else s2
                     | _ \<Rightarrow> s2))
      in s3\<lparr>in_footer := False\<rparr>)"

section \<open>The namespace tracker\<close>

text \<open>
  \<^verbatim>\<open>pop_ns(count)\<close>: \<^verbatim>\<open>count\<close> times, pop the innermost namespace, then write the
  closing brace. \<^verbatim>\<open>list.pop()\<close> on an empty list raises \<^verbatim>\<open>IndexError\<close>. The count is a
  natural number: \<^verbatim>\<open>range(count)\<close> is empty for a count below one. The methods of the
  subclass call its own \<^verbatim>\<open>output\<close>.
\<close>

fun pop_ns :: "generator \<Rightarrow> nat \<Rightarrow> error + generator" where
  "pop_ns s 0 = Inr s"
| "pop_ns s (Suc k) =
     (if namespaces s = [] then Inl IndexError
      else pop_ns (PUML_Generator_NS_output (s\<lparr>namespaces := butlast (namespaces s)\<rparr>) [''}'']) k)"

definition push_ns :: "generator \<Rightarrow> string \<Rightarrow> generator" where
  "push_ns s name =
     (let s1 = PUML_Generator_NS_output s [''namespace '' @ name @ '' {'']
      in s1\<lparr>namespaces := namespaces s1 @ [name]\<rparr>)"

text \<open>\<^verbatim>\<open>str.rfind(c)\<close>: the highest index of the character, or -1.\<close>

definition rfind :: "string \<Rightarrow> char \<Rightarrow> int" where
  "rfind p c =
     (if c \<in> set p then int (length p) - 1 - int (length (takeWhile (\<lambda>x. x \<noteq> c) (rev p)))
      else - 1)"

text \<open>
  \<^verbatim>\<open>os.path.splitext\<close> of \<^verbatim>\<open>posixpath\<close>: the extension starts at the last dot of the last
  path component, unless only dots precede it there.
\<close>

definition splitext :: "string \<Rightarrow> string \<times> string" where
  "splitext p =
     (let sepIndex = rfind p (CHR ''/'');
          dotIndex = rfind p (CHR ''.'')
      in if dotIndex > sepIndex
            \<and> list_ex (\<lambda>c. c \<noteq> CHR ''.'') (drop (nat (sepIndex + 1)) (take (nat dotIndex) p))
         then (take (nat dotIndex) p, drop (nat dotIndex) p)
         else (p, []))"

text \<open>
  The loop of \<^verbatim>\<open>start_file\<close> that determines the common path: it runs over the open
  namespaces \<open>ds\<close> and counts in \<open>n\<close> how many agree with the new ones.
\<close>

fun common_path :: "string list \<Rightarrow> string list \<Rightarrow> nat \<Rightarrow> nat" where
  "common_path [] new n = n"
| "common_path (d # ds) new n =
     (if n \<ge> length new then n
      else if d \<noteq> new ! n then n
      else common_path ds new (n + 1))"

text \<open>
  The namespaces of a file, from its path relative to the root: the path without its
  extension (\<^verbatim>\<open>names\<close>), split at the path separator of POSIX.
\<close>

definition file_namespaces :: "string \<Rightarrow> string list" where
  "file_namespaces p = (let names = fst (splitext p) in split_chr (CHR ''/'') names)"

text \<open>
  \<^verbatim>\<open>PUML_Generator_NS.start_file\<close>. \<^verbatim>\<open>os.path.relpath\<close> depends on the working directory
  and raises \<^verbatim>\<open>ValueError\<close> on an empty path: it is the parameter \<open>relpath\<close>.
\<close>

definition PUML_Generator_NS_start_file ::
  "(string \<Rightarrow> string \<Rightarrow> error + string) \<Rightarrow> generator \<Rightarrow> string \<Rightarrow> error + generator" where
  "PUML_Generator_NS_start_file relpath s src =
     (let s1 = PUML_Generator_start_file s src
      in case relpath src (root s1) of
           Inl e \<Rightarrow> Inl e
         | Inr p \<Rightarrow>
             (let new = file_namespaces p;
                  n = common_path (namespaces s1) new 0
              in case pop_ns s1 (length (namespaces s1) - n) of
                   Inl e \<Rightarrow> Inl e
                 | Inr s2 \<Rightarrow> Inr (foldl push_ns s2 (drop n new))))"

lemma namespaces_NS_output [simp]: "namespaces (PUML_Generator_NS_output s args) = namespaces s"
  by (simp add: PUML_Generator_NS_output_def PUML_Generator_output_def)

lemma pop_ns_namespaces:
  "pop_ns s k = Inr s' \<Longrightarrow>
     k \<le> length (namespaces s) \<and> namespaces s' = take (length (namespaces s) - k) (namespaces s)"
proof (induction k arbitrary: s)
  case 0
  then show ?case by simp
next
  case (Suc k)
  from Suc.prems have ne: "namespaces s \<noteq> []"
    by (auto split: if_splits)
  let ?t = "PUML_Generator_NS_output (s\<lparr>namespaces := butlast (namespaces s)\<rparr>) [''}'']"
  from Suc.prems ne have "pop_ns ?t k = Inr s'" by simp
  from Suc.IH [OF this] ne show ?case
    by (cases "namespaces s" rule: rev_cases) (simp_all add: butlast_conv_take)
qed

text \<open>
  The loop of \<^verbatim>\<open>PUML_Generator_NS.footer\<close>: while a namespace is open, close them all.
\<close>

function close_namespaces :: "generator \<Rightarrow> error + generator" where
  "close_namespaces s =
     (if namespaces s \<noteq> [] then
        (case pop_ns s (depth s) of Inl e \<Rightarrow> Inl e | Inr s' \<Rightarrow> close_namespaces s')
      else Inr s)"
  by pat_completeness auto
termination
proof (relation "measure (\<lambda>s. length (namespaces s))")
  show "wf (measure (\<lambda>s. length (namespaces s)))" by simp
next
  fix s :: generator and s'
  assume "namespaces s \<noteq> []" and "pop_ns s (depth s) = Inr s'"
  then show "(s', s) \<in> measure (\<lambda>s. length (namespaces s))"
    using pop_ns_namespaces [of s "depth s" s'] by (simp add: depth_def)
qed

definition PUML_Generator_NS_footer :: "generator \<Rightarrow> error + generator" where
  "PUML_Generator_NS_footer s =
     (case close_namespaces s of Inl e \<Rightarrow> Inl e | Inr s' \<Rightarrow> Inr (PUML_Generator_footer s'))"

text \<open>
  A run of the namespace tracker: \<^verbatim>\<open>start_file\<close> for each source file in turn, then
  \<^verbatim>\<open>footer\<close>. An exception ends the run.
\<close>

fun start_files ::
  "(string \<Rightarrow> string \<Rightarrow> error + string) \<Rightarrow> generator \<Rightarrow> string list \<Rightarrow> error + generator" where
  "start_files relpath s [] = Inr s"
| "start_files relpath s (src # srcs) =
     (case PUML_Generator_NS_start_file relpath s src of
        Inl e \<Rightarrow> Inl e
      | Inr s' \<Rightarrow> start_files relpath s' srcs)"

definition tracker_run ::
  "(string \<Rightarrow> string \<Rightarrow> error + string) \<Rightarrow> generator \<Rightarrow> string list \<Rightarrow> error + generator" where
  "tracker_run relpath s srcs =
     (case start_files relpath s srcs of
        Inl e \<Rightarrow> Inl e
      | Inr s' \<Rightarrow> PUML_Generator_NS_footer s')"

section \<open>Syntax trees and descriptors\<close>

text \<open>
  The expressions of the \<^verbatim>\<open>ast\<close> module that the generator tells apart: a name, an
  attribute access, and any other expression (a call, a subscript, a constant), kept with
  its text.
\<close>

datatype expr = Name string | Attribute expr string | OtherExpr string

text \<open>
  The elements of the lists of an \<^verbatim>\<open>ast.arguments\<close> node: a parameter (\<^verbatim>\<open>ast.arg\<close>, with
  its name and its annotation), a default expression, or \<^verbatim>\<open>None\<close> (a keyword-only
  parameter without default).
\<close>

datatype node = Arg string "expr option" | Expr expr | NoneNode

text \<open>\<^verbatim>\<open>node.arg\<close>: only a parameter has the attribute.\<close>

fun node_arg :: "node \<Rightarrow> error + string" where
  "node_arg (Arg a _) = Inr a"
| "node_arg _ = Inl AttributeError"

text \<open>
  An \<^verbatim>\<open>ast.arguments\<close> node as a value: what the renderer reads. The order of the fields
  is the one of the \<^verbatim>\<open>ast\<close> module.
\<close>

record arguments =
  posonlyargs :: "node list"
  args :: "node list"
  vararg :: node
  kwonlyargs :: "node list"
  kw_defaults :: "node list"
  kwarg :: node
  defaults :: "node list"

text \<open>
  What \<^verbatim>\<open>astor.to_source\<close> is applied to. The function itself belongs to the library
  \<^verbatim>\<open>astor\<close>: it is the parameter \<open>to_source\<close> of the functions below.
\<close>

datatype ast = ExprAst expr | ArgumentsAst arguments

section \<open>The store of mutable objects\<close>

text \<open>
  \<^verbatim>\<open>arglist\<close> copies the arguments of a function and changes the copy in place, so the
  lists and the \<^verbatim>\<open>ast.arguments\<close> objects live in a store, at addresses. An
  \<^verbatim>\<open>ast.arguments\<close> object holds the addresses of its five lists; the elements of the
  lists are values, since nothing in the generator changes a parameter or an expression
  in place. \<open>nxt\<close> is the next free address, \<open>log\<close> the warnings given to the logger:
  the unexpected name and the name of the function.
\<close>

type_synonym addr = nat

record arguments_obj =
  o_posonlyargs :: addr
  o_args :: addr
  o_vararg :: node
  o_kwonlyargs :: addr
  o_kw_defaults :: addr
  o_kwarg :: node
  o_defaults :: addr

record store =
  listobjs :: "addr \<Rightarrow> node list"
  argobjs :: "addr \<Rightarrow> arguments_obj"
  nxt :: addr
  log :: "(string \<times> string) list"

text \<open>The value of the \<^verbatim>\<open>ast.arguments\<close> object at an address.\<close>

definition read_arguments :: "store \<Rightarrow> addr \<Rightarrow> arguments" where
  "read_arguments h a =
     (let x = argobjs h a
      in \<lparr>posonlyargs = listobjs h (o_posonlyargs x), args = listobjs h (o_args x),
          vararg = o_vararg x, kwonlyargs = listobjs h (o_kwonlyargs x),
          kw_defaults = listobjs h (o_kw_defaults x), kwarg = o_kwarg x,
          defaults = listobjs h (o_defaults x)\<rparr>)"

text \<open>A new list object.\<close>

definition new_list :: "store \<Rightarrow> node list \<Rightarrow> addr \<times> store" where
  "new_list h xs = (nxt h, h\<lparr>listobjs := (listobjs h)(nxt h := xs), nxt := Suc (nxt h)\<rparr>)"

text \<open>
  \<^verbatim>\<open>copy.deepcopy\<close> of a list: a list already copied in this call (found in the memo) is
  shared, any other list is copied to a new object.
\<close>

definition deepcopy_list ::
  "store \<Rightarrow> (addr \<times> addr) list \<Rightarrow> addr \<Rightarrow> addr \<times> store \<times> (addr \<times> addr) list" where
  "deepcopy_list h memo a =
     (case map_of memo a of
        Some a' \<Rightarrow> (a', h, memo)
      | None \<Rightarrow> (let (a', h') = new_list h (listobjs h a) in (a', h', (a, a') # memo)))"

text \<open>\<^verbatim>\<open>copy.deepcopy\<close> of an \<^verbatim>\<open>ast.arguments\<close> object: its lists are copied, field by field.\<close>

definition deepcopy :: "store \<Rightarrow> addr \<Rightarrow> addr \<times> store" where
  "deepcopy h a =
     (let x = argobjs h a;
          (p, h1, m1) = deepcopy_list h [] (o_posonlyargs x);
          (r, h2, m2) = deepcopy_list h1 m1 (o_args x);
          (k, h3, m3) = deepcopy_list h2 m2 (o_kwonlyargs x);
          (kd, h4, m4) = deepcopy_list h3 m3 (o_kw_defaults x);
          (d, h5, m5) = deepcopy_list h4 m4 (o_defaults x);
          y = \<lparr>o_posonlyargs = p, o_args = r, o_vararg = o_vararg x, o_kwonlyargs = k,
               o_kw_defaults = kd, o_kwarg = o_kwarg x, o_defaults = d\<rparr>
      in (nxt h5, h5\<lparr>argobjs := (argobjs h5)(nxt h5 := y), nxt := Suc (nxt h5)\<rparr>))"

text \<open>A function or method: an \<^verbatim>\<open>ast.FunctionDef\<close>, with the address of its arguments.\<close>

record function_def =
  fd_name :: string
  fd_args :: addr
  fd_decorator_list :: "expr list"
  fd_returns :: "expr option"

text \<open>The descriptors that the parser hands to the generator.\<close>

record class_info =
  classname :: string
  bases :: "expr list"
  classvars :: "string list"
  members :: "string list"
  methods :: "function_def list"

record code_info =
  module_variables :: "string list"
  module_functions :: "function_def list"

section \<open>Decorators\<close>

text \<open>\<^verbatim>\<open>_deco_marker\<close>: \<^verbatim>\<open>dec.id\<close> raises \<^verbatim>\<open>AttributeError\<close> on a node that is not a name.\<close>

definition deco_marker :: "(ast \<Rightarrow> string) \<Rightarrow> expr \<Rightarrow> error + string" where
  "deco_marker to_source dec =
     (case dec of
        Attribute v a \<Rightarrow> Inr (''@'' @ rstrip (to_source (ExprAst dec)))
      | Name i \<Rightarrow>
          (if i = ''staticmethod'' then Inr ''static''
           else if i = ''abstractmethod'' then Inr ''abstract''
           else Inr (''@'' @ i))
      | OtherExpr t \<Rightarrow> Inl AttributeError)"

text \<open>
  \<^verbatim>\<open>is_static_method\<close>: \<^verbatim>\<open>True\<close> at the first decorator that is the name
  \<^verbatim>\<open>staticmethod\<close>; a loop that ends without one returns \<^verbatim>\<open>None\<close>.
\<close>

fun static_decorator :: "expr list \<Rightarrow> pyval" where
  "static_decorator [] = PNone"
| "static_decorator (dec # decs) =
     (case dec of
        Name i \<Rightarrow> if i = ''staticmethod'' then PBool True else static_decorator decs
      | _ \<Rightarrow> static_decorator decs)"

definition is_static_method :: "function_def \<Rightarrow> pyval" where
  "is_static_method meth = static_decorator (fd_decorator_list meth)"

text \<open>\<^verbatim>\<open>has_decorator\<close>: the name occurs in the identifier or in the attribute.\<close>

fun decorator_named :: "expr list \<Rightarrow> string \<Rightarrow> bool" where
  "decorator_named [] nm = False"
| "decorator_named (dec # decs) nm =
     (case dec of
        Name i \<Rightarrow> if py_in nm i then True else decorator_named decs nm
      | Attribute v a \<Rightarrow> if py_in nm a then True else decorator_named decs nm
      | OtherExpr t \<Rightarrow> decorator_named decs nm)"

definition has_decorator :: "function_def \<Rightarrow> string \<Rightarrow> bool" where
  "has_decorator meth nm = decorator_named (fd_decorator_list meth) nm"

section \<open>Argument lists\<close>

text \<open>
  The omit-self step of \<^verbatim>\<open>arglist\<close> on the copy at address \<open>a\<close>:
  \<^verbatim>\<open>args.args.pop(0)\<close> raises \<^verbatim>\<open>IndexError\<close> on an empty list and otherwise removes the
  first element from the list object; a name other than \<^verbatim>\<open>self\<close> is logged.
\<close>

definition pop_self :: "store \<Rightarrow> addr \<Rightarrow> function_def \<Rightarrow> (error + unit) \<times> store" where
  "pop_self h a fdef =
     (let l = o_args (argobjs h a)
      in case listobjs h l of
           [] \<Rightarrow> (Inl IndexError, h)
         | self_arg # rest \<Rightarrow>
             (let h1 = h\<lparr>listobjs := (listobjs h)(l := rest)\<rparr>
              in case node_arg self_arg of
                   Inl e \<Rightarrow> (Inl e, h1)
                 | Inr nm \<Rightarrow>
                     (Inr (), if nm \<noteq> ''self'' then h1\<lparr>log := log h1 @ [(nm, fd_name fdef)]\<rparr>
                              else h1)))"

text \<open>
  The omit-defaults step: \<^verbatim>\<open>args.defaults = []\<close> and \<^verbatim>\<open>args.kw_defaults = []\<close> bind two
  new empty lists to the attributes of the copy.
\<close>

definition clear_defaults :: "store \<Rightarrow> addr \<Rightarrow> store" where
  "clear_defaults h a =
     (let (d, h1) = new_list h [];
          h2 = h1\<lparr>argobjs := (argobjs h1)(a := (argobjs h1 a)\<lparr>o_defaults := d\<rparr>)\<rparr>;
          (kd, h3) = new_list h2 []
      in h3\<lparr>argobjs := (argobjs h3)(a := (argobjs h3 a)\<lparr>o_kw_defaults := kd\<rparr>)\<rparr>)"

text \<open>
  The condition of the omit-self step, evaluated from left to right:
  \<^verbatim>\<open>ismethod and self.opt_omit_self() and not self.is_static_method(fdef)\<close>.
\<close>

definition omit_self_cond :: "config option \<Rightarrow> function_def \<Rightarrow> bool \<Rightarrow> error + bool" where
  "omit_self_cond c fdef ismethod =
     (if \<not> ismethod then Inr False
      else case opt_omit_self c of
             Inl e \<Rightarrow> Inl e
           | Inr v \<Rightarrow> Inr (truthy v \<and> \<not> truthy (is_static_method fdef)))"

text \<open>
  \<^verbatim>\<open>arglist\<close>. The result is the exception or the string, together with the store after
  the call.
\<close>

definition arglist ::
  "(ast \<Rightarrow> string) \<Rightarrow> config option \<Rightarrow> store \<Rightarrow> function_def \<Rightarrow> bool
     \<Rightarrow> (error + string) \<times> store" where
  "arglist to_source c h fdef ismethod =
     (let section = (if ismethod then ''methods'' else ''module'')
      in case opt_write_arglist c section of
           Inl e \<Rightarrow> (Inl e, h)
         | Inr w \<Rightarrow>
             if \<not> truthy w then (Inr [], h)
             else
               (let (a, h1) = deepcopy h (fd_args fdef)
                in case omit_self_cond c fdef ismethod of
                     Inl e \<Rightarrow> (Inl e, h1)
                   | Inr omit \<Rightarrow>
                       (case (if omit then pop_self h1 a fdef else (Inr (), h1)) of
                          (Inl e, h2) \<Rightarrow> (Inl e, h2)
                        | (Inr _, h2) \<Rightarrow>
                            (case opt_omit_defaults c section of
                               Inl e \<Rightarrow> (Inl e, h2)
                             | Inr od \<Rightarrow>
                                 (let h3 = (if truthy od then clear_defaults h2 a else h2)
                                  in (Inr (rstrip (to_source (ArgumentsAst (read_arguments h3 a)))),
                                      h3))))))"

section \<open>Module globals\<close>

text \<open>
  The loop of \<^verbatim>\<open>print_codeinfo\<close> over the functions. \<open>visibility\<close> is the method of the
  descriptor, which belongs to the parser.
\<close>

fun codeinfo_functions ::
  "(ast \<Rightarrow> string) \<Rightarrow> (string \<Rightarrow> string) \<Rightarrow> generator \<times> store \<Rightarrow> function_def list
     \<Rightarrow> error + generator \<times> store" where
  "codeinfo_functions to_source visibility (s, h) [] = Inr (s, h)"
| "codeinfo_functions to_source visibility (s, h) (fdef # rest) =
     (case arglist to_source (config s) h fdef False of
        (Inl e, h') \<Rightarrow> Inl e
      | (Inr al, h') \<Rightarrow>
          codeinfo_functions to_source visibility
            (self_output s [TAB @ visibility (fd_name fdef) @ fd_name fdef @ ''('' @ al @ '')''], h')
            rest)"

text \<open>\<^verbatim>\<open>print_codeinfo\<close>: the first statement asserts \<^verbatim>\<open>self.opt_globals()\<close>.\<close>

definition print_codeinfo ::
  "(ast \<Rightarrow> string) \<Rightarrow> (string \<Rightarrow> string) \<Rightarrow> generator \<times> store \<Rightarrow> code_info
     \<Rightarrow> error + generator \<times> store" where
  "print_codeinfo to_source visibility sh codeinfo =
     (let (s, h) = sh
      in case opt_globals (config s) of
           Inl e \<Rightarrow> Inl e
         | Inr g \<Rightarrow>
             if \<not> truthy g then Inl AssertionError
             else
               (let s1 = self_output s [''class'', ''__module__'', ''{''];
                    s2 = foldl (\<lambda>t v. self_output t [TAB @ visibility v @ v]) s1
                           (module_variables codeinfo)
                in case codeinfo_functions to_source visibility (s2, h) (module_functions codeinfo) of
                     Inl e \<Rightarrow> Inl e
                   | Inr (s3, h3) \<Rightarrow> Inr (self_output s3 [''}\<newline>''], h3)))"

section \<open>Classes\<close>

text \<open>
  The loop of \<^verbatim>\<open>print_classinfo\<close> over the bases: it carries the prefix (\<open>pfx\<close>) and appends the
  inheritance relations to the generator.
\<close>

fun classinfo_bases ::
  "(ast \<Rightarrow> string) \<Rightarrow> string \<Rightarrow> generator \<times> string \<Rightarrow> expr list \<Rightarrow> generator \<times> string" where
  "classinfo_bases to_source cname (s, pfx) [] = (s, pfx)"
| "classinfo_bases to_source cname (s, pfx) (base # rest) =
     (let expr = rstrip (to_source (ExprAst base))
      in if expr = ''object'' then classinfo_bases to_source cname (s, pfx) rest
         else if expr = ''ABC'' then classinfo_bases to_source cname (s, ''abstract class'') rest
         else if expr = ''Enum'' then classinfo_bases to_source cname (s, ''enum'') rest
         else classinfo_bases to_source cname
                (s\<lparr>inherit_relations :=
                     inherit_relations s @ [(last (split_chr (CHR ''.'') expr), cname)]\<rparr>,
                 pfx)
                rest)"

text \<open>
  \<^verbatim>\<open>print_classinfo\<close> up to the line that opens the block: the loop over the bases, the
  check of the first character of the class name (\<^verbatim>\<open>IndexError\<close> on an empty name), and
  the output of prefix, name and brace.
\<close>

definition print_classinfo_head ::
  "(ast \<Rightarrow> string) \<Rightarrow> generator \<Rightarrow> class_info \<Rightarrow> error + generator" where
  "print_classinfo_head to_source s classinfo =
     (let (s1, pfx) =
            classinfo_bases to_source (classname classinfo) (s, ''class'') (bases classinfo)
      in case classname classinfo of
           [] \<Rightarrow> Inl IndexError
         | c # _ \<Rightarrow>
             (let pfx' = (if c = CHR ''I'' then ''interface'' else pfx)
              in Inr (self_output s1 [pfx', classname classinfo, ''{''])))"

text \<open>\<^verbatim>\<open>x in v\<close> for a string \<open>x\<close>: membership in a list, occurrence in a string.\<close>

fun py_contains :: "string \<Rightarrow> pyval \<Rightarrow> error + bool" where
  "py_contains x (PList xs) = Inr (x \<in> set xs)"
| "py_contains x (PStr t) = Inr (py_in x t)"
| "py_contains x _ = Inl TypeError"

text \<open>The text of a return annotation, \<^verbatim>\<open>None\<close> when there is none.\<close>

definition returns_text :: "(ast \<Rightarrow> string) \<Rightarrow> function_def \<Rightarrow> string" where
  "returns_text to_source m =
     (case fd_returns m of None \<Rightarrow> ''None'' | Some r \<Rightarrow> rstrip (to_source (ExprAst r)))"

text \<open>The first loop over the methods: the properties whose type is a built-in type.\<close>

fun classinfo_properties ::
  "(ast \<Rightarrow> string) \<Rightarrow> (string \<Rightarrow> error + pyval) \<Rightarrow> generator \<Rightarrow> function_def list
     \<Rightarrow> error + generator" where
  "classinfo_properties to_source py_eval s [] = Inr s"
| "classinfo_properties to_source py_eval s (m # rest) =
     (if has_decorator m ''property'' then
        (let returns = returns_text to_source m
         in case opt_builtin_types py_eval (config s) ''methods'' of
              Inl e \<Rightarrow> Inl e
            | Inr types \<Rightarrow>
                (case py_contains returns types of
                   Inl e \<Rightarrow> Inl e
                 | Inr True \<Rightarrow>
                     classinfo_properties to_source py_eval
                       (self_output s [TAB @ ''+'' @ fd_name m @ '' : '' @ returns_text to_source m])
                       rest
                 | Inr False \<Rightarrow> classinfo_properties to_source py_eval s rest))
      else classinfo_properties to_source py_eval s rest)"

text \<open>The markers of the decorators of a method, in braces; the first failure is raised.\<close>

fun deco_markers :: "(ast \<Rightarrow> string) \<Rightarrow> expr list \<Rightarrow> error + string list" where
  "deco_markers to_source [] = Inr []"
| "deco_markers to_source (dec # decs) =
     (case deco_marker to_source dec of
        Inl e \<Rightarrow> Inl e
      | Inr mk \<Rightarrow>
          (case deco_markers to_source decs of
             Inl e \<Rightarrow> Inl e
           | Inr mks \<Rightarrow> Inr ((''{'' @ mk @ ''}'') # mks)))"

text \<open>The second loop over the methods.\<close>

fun classinfo_methods ::
  "(ast \<Rightarrow> string) \<Rightarrow> (string \<Rightarrow> string) \<Rightarrow> string \<Rightarrow> generator \<times> store \<Rightarrow> function_def list
     \<Rightarrow> error + generator \<times> store" where
  "classinfo_methods to_source visibility cname (s, h) [] = Inr (s, h)"
| "classinfo_methods to_source visibility cname (s, h) (m # rest) =
     (if has_decorator m ''property'' \<or> has_decorator m ''setter'' then
        classinfo_methods to_source visibility cname (s, h) rest
      else
        (case arglist to_source (config s) h m True of
           (Inl e, h') \<Rightarrow> Inl e
         | (Inr al, h') \<Rightarrow>
             if fd_name m = ''__init__'' then
               classinfo_methods to_source visibility cname
                 (self_output s [TAB @ ''+'' @ cname @ ''('' @ al @ '')''], h') rest
             else
               (case deco_markers to_source (fd_decorator_list m) of
                  Inl e \<Rightarrow> Inl e
                | Inr mks \<Rightarrow>
                    classinfo_methods to_source visibility cname
                      (self_output s
                         [TAB @ visibility (fd_name m) @ fd_name m @ ''('' @ al @ '')''
                            @ join '','' mks @ '' : '' @ returns_text to_source m],
                       h')
                      rest)))"

text \<open>\<^verbatim>\<open>PUML_Generator.print_classinfo\<close>: the opening line, the members, the methods.\<close>

definition PUML_Generator_print_classinfo ::
  "(ast \<Rightarrow> string) \<Rightarrow> (string \<Rightarrow> error + pyval) \<Rightarrow> (string \<Rightarrow> string) \<Rightarrow> generator \<times> store
     \<Rightarrow> class_info \<Rightarrow> error + generator \<times> store" where
  "PUML_Generator_print_classinfo to_source py_eval visibility sh classinfo =
     (let (s, h) = sh
      in case print_classinfo_head to_source s classinfo of
           Inl e \<Rightarrow> Inl e
         | Inr s1 \<Rightarrow>
             (let s2 = foldl (\<lambda>t m. self_output t [TAB @ ''{static}'', visibility m @ m]) s1
                         (classvars classinfo);
                  s3 = foldl (\<lambda>t m. self_output t [TAB @ visibility m @ m]) s2
                         (members classinfo)
              in case classinfo_properties to_source py_eval s3 (methods classinfo) of
                   Inl e \<Rightarrow> Inl e
                 | Inr s4 \<Rightarrow>
                     (case classinfo_methods to_source visibility (classname classinfo) (s4, h)
                             (methods classinfo) of
                        Inl e \<Rightarrow> Inl e
                      | Inr (s5, h5) \<Rightarrow> Inr (self_output s5 [''}\<newline>''], h5))))"

text \<open>
  \<^verbatim>\<open>PUML_Generator_NS.print_classinfo\<close>: the dotted path of the open namespaces is
  recorded for the class, then the method of the base class runs.
\<close>

definition full_ns :: "generator \<Rightarrow> string" where
  "full_ns s = foldl (\<lambda>acc n. acc @ n @ ''.'') [] (namespaces s)"

definition PUML_Generator_NS_print_classinfo ::
  "(ast \<Rightarrow> string) \<Rightarrow> (string \<Rightarrow> error + pyval) \<Rightarrow> (string \<Rightarrow> string) \<Rightarrow> generator \<times> store
     \<Rightarrow> class_info \<Rightarrow> error + generator \<times> store" where
  "PUML_Generator_NS_print_classinfo to_source py_eval visibility sh classinfo =
     (let (s, h) = sh
      in PUML_Generator_print_classinfo to_source py_eval visibility
           (s\<lparr>class_in_module := (class_in_module s)(classname classinfo \<mapsto> full_ns s)\<rparr>, h)
           classinfo)"

section \<open>Well-formed descriptors and the value of an argument list\<close>

text \<open>
  A function has its arguments in the store when the \<^verbatim>\<open>ast.arguments\<close> object and its
  five lists are allocated. In a function of the parser the five lists are, moreover,
  five different objects.
\<close>

definition in_store :: "store \<Rightarrow> function_def \<Rightarrow> bool" where
  "in_store h fdef =
     (let x = argobjs h (fd_args fdef)
      in fd_args fdef < nxt h
         \<and> o_posonlyargs x < nxt h \<and> o_args x < nxt h \<and> o_kwonlyargs x < nxt h
         \<and> o_kw_defaults x < nxt h \<and> o_defaults x < nxt h)"

definition allocated :: "store \<Rightarrow> function_def \<Rightarrow> bool" where
  "allocated h fdef =
     (let x = argobjs h (fd_args fdef)
      in in_store h fdef
         \<and> distinct [o_posonlyargs x, o_args x, o_kwonlyargs x, o_kw_defaults x, o_defaults x])"

text \<open>
  What \<^verbatim>\<open>arglist\<close> returns, as a function of the value \<open>v\<close> of the arguments of the
  function: the steps of \<^verbatim>\<open>arglist\<close> on the value of the copy.
\<close>

definition arglist_on_value ::
  "(ast \<Rightarrow> string) \<Rightarrow> config option \<Rightarrow> arguments \<Rightarrow> function_def \<Rightarrow> bool \<Rightarrow> error + string" where
  "arglist_on_value to_source c v fdef ismethod =
     (let section = (if ismethod then ''methods'' else ''module'')
      in case opt_write_arglist c section of
           Inl e \<Rightarrow> Inl e
         | Inr w \<Rightarrow>
             if \<not> truthy w then Inr []
             else
               (case omit_self_cond c fdef ismethod of
                  Inl e \<Rightarrow> Inl e
                | Inr omit \<Rightarrow>
                    (case (if omit then
                             (case args v of
                                [] \<Rightarrow> Inl IndexError
                              | self_arg # rest \<Rightarrow>
                                  (case node_arg self_arg of
                                     Inl e \<Rightarrow> Inl e
                                   | Inr nm \<Rightarrow> Inr (v\<lparr>args := rest\<rparr>)))
                           else Inr v) of
                       Inl e \<Rightarrow> Inl e
                     | Inr v1 \<Rightarrow>
                         (case opt_omit_defaults c section of
                            Inl e \<Rightarrow> Inl e
                          | Inr od \<Rightarrow>
                              Inr (rstrip (to_source (ArgumentsAst
                                     (if truthy od then v1\<lparr>kw_defaults := [], defaults := []\<rparr>
                                      else v1))))))))"

section \<open>Sample inputs\<close>

text \<open>
  The store of a parsed function: \<open>alloc_arguments\<close> builds the \<^verbatim>\<open>ast.arguments\<close> object
  of a value, with a list object for each of its lists.
\<close>

definition empty_store :: store where
  "empty_store =
     \<lparr>listobjs = (\<lambda>_. []),
      argobjs = (\<lambda>_. \<lparr>o_posonlyargs = 0, o_args = 0, o_vararg = NoneNode, o_kwonlyargs = 0,
                       o_kw_defaults = 0, o_kwarg = NoneNode, o_defaults = 0\<rparr>),
      nxt = 0, log = []\<rparr>"

definition alloc_arguments :: "store \<Rightarrow> arguments \<Rightarrow> addr \<times> store" where
  "alloc_arguments h v =
     (let (p, h1) = new_list h (posonlyargs v);
          (r, h2) = new_list h1 (args v);
          (k, h3) = new_list h2 (kwonlyargs v);
          (kd, h4) = new_list h3 (kw_defaults v);
          (d, h5) = new_list h4 (defaults v);
          y = \<lparr>o_posonlyargs = p, o_args = r, o_vararg = vararg v, o_kwonlyargs = k,
               o_kw_defaults = kd, o_kwarg = kwarg v, o_defaults = d\<rparr>
      in (nxt h5, h5\<lparr>argobjs := (argobjs h5)(nxt h5 := y), nxt := Suc (nxt h5)\<rparr>))"

text \<open>
  A renderer for the examples, in the place of \<^verbatim>\<open>astor.to_source\<close>: a name and an
  attribute access print as in the source, a parameter prints with its default after an
  equals sign (the defaults belong to the last parameters), and the text ends with a
  line feed.
\<close>

fun expr_text :: "expr \<Rightarrow> string" where
  "expr_text (Name i) = i"
| "expr_text (Attribute v a) = expr_text v @ ''.'' @ a"
| "expr_text (OtherExpr t) = t"

fun param_text :: "node \<times> node \<Rightarrow> string" where
  "param_text (Arg a ann, Expr e) = a @ ''='' @ expr_text e"
| "param_text (Arg a ann, _) = a"
| "param_text (_, _) = []"

definition params_text :: "node list \<Rightarrow> node list \<Rightarrow> string list" where
  "params_text ps ds =
     map param_text (zip ps (replicate (length ps - length ds) NoneNode @ ds))"

fun sample_to_source :: "ast \<Rightarrow> string" where
  "sample_to_source (ExprAst e) = expr_text e @ ''\<newline>''"
| "sample_to_source (ArgumentsAst v) =
     join '', '' (params_text (posonlyargs v @ args v) (defaults v)
                  @ params_text (kwonlyargs v) (kw_defaults v)) @ ''\<newline>''"

text \<open>
  Two functions in one store: a method \<^verbatim>\<open>f(self, x, y=1)\<close> and a function \<^verbatim>\<open>g()\<close> without
  parameters; and a configuration that enables omit-self and omit-defaults for methods.
\<close>

definition sample_args :: arguments where
  "sample_args =
     \<lparr>posonlyargs = [], args = [Arg ''self'' None, Arg ''x'' None, Arg ''y'' None],
      vararg = NoneNode, kwonlyargs = [], kw_defaults = [], kwarg = NoneNode,
      defaults = [Expr (OtherExpr ''1'')]\<rparr>"

definition no_args :: arguments where
  "no_args =
     \<lparr>posonlyargs = [], args = [], vararg = NoneNode, kwonlyargs = [], kw_defaults = [],
      kwarg = NoneNode, defaults = []\<rparr>"

definition sample_store :: store where
  "sample_store = snd (alloc_arguments (snd (alloc_arguments empty_store sample_args)) no_args)"

definition sample_method :: "expr list \<Rightarrow> function_def" where
  "sample_method decs =
     \<lparr>fd_name = ''f'', fd_args = fst (alloc_arguments empty_store sample_args),
      fd_decorator_list = decs, fd_returns = None\<rparr>"

definition bare_method :: function_def where
  "bare_method =
     \<lparr>fd_name = ''g'',
      fd_args = fst (alloc_arguments (snd (alloc_arguments empty_store sample_args)) no_args),
      fd_decorator_list = [], fd_returns = None\<rparr>"

text \<open>
  A static method \<^verbatim>\<open>make(x, y=2)\<close> in a store of its own; a configuration that enables
  omit-self and disables the argument lists of methods; and one that enables the module
  globals.
\<close>

definition static_args :: arguments where
  "static_args =
     \<lparr>posonlyargs = [], args = [Arg ''x'' None, Arg ''y'' None], vararg = NoneNode,
      kwonlyargs = [], kw_defaults = [], kwarg = NoneNode, defaults = [Expr (OtherExpr ''2'')]\<rparr>"

definition static_store :: store where
  "static_store = snd (alloc_arguments empty_store static_args)"

definition static_method :: function_def where
  "static_method =
     \<lparr>fd_name = ''make'', fd_args = fst (alloc_arguments empty_store static_args),
      fd_decorator_list = [Name ''staticmethod''], fd_returns = None\<rparr>"

text \<open>A module with one variable and one function.\<close>

definition sample_module :: code_info where
  "sample_module = \<lparr>module_variables = [''limit''], module_functions = [sample_method []]\<rparr>"

text \<open>A class without members.\<close>

definition sample_class :: "string \<Rightarrow> expr list \<Rightarrow> class_info" where
  "sample_class nm bs = \<lparr>classname = nm, bases = bs, classvars = [], members = [], methods = []\<rparr>"

text \<open>
  A stand-in for \<^verbatim>\<open>os.path.relpath\<close> in the examples: a path that is already relative to
  the root.
\<close>

definition sample_relpath :: "string \<Rightarrow> string \<Rightarrow> error + string" where
  "sample_relpath src r = (if src = [] then Inl ValueError else Inr src)"

text \<open>
  A generator of the namespace tracker before the footer: two classes rendered in the
  namespace \<^verbatim>\<open>pkg.shapes\<close>, and two inheritance relations recorded.
\<close>

definition sample_footer_state :: generator where
  "sample_footer_state =
     (PUML_Generator_NS_init ''.'' None)
       \<lparr>class_in_module := [''Circle'' \<mapsto> ''pkg.shapes.'', ''Shape'' \<mapsto> ''pkg.shapes.''],
        inherit_relations := [(''Shape'', ''Circle''), (''Base'', ''Circle'')],
        namespaces := [''pkg'', ''shapes'']\<rparr>"

text \<open>A configuration given by the list of its options.\<close>

definition config_of :: "((string \<times> string) \<times> string) list \<Rightarrow> config" where
  "config_of kvs = (\<lambda>section option. map_of kvs (section, option))"

definition no_arglist_config :: "config option" where
  "no_arglist_config =
     Some (config_of [((''methods'', ''omit-self''), ''yes''),
                      ((''methods'', ''write-arg-list''), ''no'')])"

definition globals_config :: "config option" where
  "globals_config = Some (config_of [((''module'', ''write-globals''), ''on'')])"

definition omit_config :: "config option" where
  "omit_config =
     Some (config_of [((''methods'', ''omit-self''), ''yes''),
                      ((''methods'', ''omit-defaults''), ''true'')])"


section \<open>The lines of the footer\<close>

text \<open>
  An endpoint of an inheritance relation as the footer prints it: with the prefix that
  the dictionary holds for the name, or unchanged when the name is not a key.
\<close>

definition qualified_name :: "(string \<rightharpoonup> string) \<Rightarrow> string \<Rightarrow> string" where
  "qualified_name m nm = (case m nm of None \<Rightarrow> nm | Some ns \<Rightarrow> ns @ nm)"

definition relation_line :: "(string \<rightharpoonup> string) \<Rightarrow> string \<times> string \<Rightarrow> string" where
  "relation_line m r = qualified_name m (fst r) @ '' <|-- '' @ qualified_name m (snd r) @ ''\<newline>''"

text \<open>The epilog as the footer prints it: nothing when it is missing or empty.\<close>

definition epilog_writes :: "config option \<Rightarrow> string list" where
  "epilog_writes c =
     (case c of
        None \<Rightarrow> []
      | Some cfg \<Rightarrow>
          (case cfg ''puml'' ''epilog'' of
             None \<Rightarrow> []
           | Some epilog \<Rightarrow> if epilog = [] then [] else [epilog @ ''\<newline>\<newline>'']))"

section \<open>The opening line of a class\<close>

text \<open>
  The texts of the bases of a class, and the prefix that the opening line of the class
  is expected to carry: \<^verbatim>\<open>interface\<close> for a name that starts with \<^verbatim>\<open>I\<close>; otherwise the
  last base among \<^verbatim>\<open>ABC\<close> and \<^verbatim>\<open>Enum\<close> decides, and without such a base the prefix is
  \<^verbatim>\<open>class\<close>. \<open>recorded_relations\<close> are the inheritance relations of the other bases.
\<close>

definition base_texts :: "(ast \<Rightarrow> string) \<Rightarrow> expr list \<Rightarrow> string list" where
  "base_texts to_source bs = map (\<lambda>b. rstrip (to_source (ExprAst b))) bs"

definition marker_prefix :: "string \<Rightarrow> string list \<Rightarrow> string" where
  "marker_prefix pfx texts =
     (case filter (\<lambda>e. e = ''ABC'' \<or> e = ''Enum'') texts of
        [] \<Rightarrow> pfx
      | m # ms \<Rightarrow> if last (m # ms) = ''ABC'' then ''abstract class'' else ''enum'')"

definition expected_prefix :: "(ast \<Rightarrow> string) \<Rightarrow> class_info \<Rightarrow> string" where
  "expected_prefix to_source classinfo =
     (if take 1 (classname classinfo) = ''I'' then ''interface''
      else marker_prefix ''class'' (base_texts to_source (bases classinfo)))"

definition recorded_relations :: "string \<Rightarrow> string list \<Rightarrow> (string \<times> string) list" where
  "recorded_relations cname texts =
     map (\<lambda>e. (last (split_chr (CHR ''.'') e), cname))
       (filter (\<lambda>e. e \<noteq> ''object'' \<and> e \<noteq> ''ABC'' \<and> e \<noteq> ''Enum'') texts)"

text \<open>
  What the body of \<^verbatim>\<open>print_classinfo\<close> may change: it writes to the streams and leaves
  the other attributes as they are.
\<close>

definition only_writes :: "generator \<Rightarrow> generator \<Rightarrow> bool" where
  "only_writes s s' =
     (prefix (dest s) (dest s') \<and> prefix (footer_dest s) (footer_dest s')
      \<and> cls s' = cls s \<and> in_footer s' = in_footer s \<and> config s' = config s
      \<and> sourcename s' = sourcename s \<and> class_in_module s' = class_in_module s
      \<and> inherit_relations s' = inherit_relations s \<and> root s' = root s
      \<and> namespaces s' = namespaces s)"

section \<open>Markers written by the namespace tracker\<close>

text \<open>
  The closing marker is the text that \<^verbatim>\<open>pop_ns\<close> prints and an opening marker the text
  that \<^verbatim>\<open>push_ns\<close> prints for a name. \<open>pop_writes d k\<close> are the writes of closing \<open>k\<close>
  namespaces from depth \<open>d\<close>, \<open>push_writes d xs\<close> those of opening \<open>xs\<close> at depth \<open>d\<close>:
  each marker is preceded by the indentation of the depth at which it is printed.
\<close>

definition close_marker :: string where
  "close_marker = print_text [''}'']"

definition open_marker :: "string \<Rightarrow> string" where
  "open_marker name = print_text [''namespace '' @ name @ '' {'']"

text \<open>Recognisers of the two kinds of marker among the writes of a stream.\<close>

definition is_close :: "string \<Rightarrow> bool" where
  "is_close w = (w = ''}\<newline>'')"

definition is_open :: "string \<Rightarrow> bool" where
  "is_open w = (13 \<le> length w \<and> take 10 w = ''namespace '' \<and> drop (length w - 3) w = '' {\<newline>'')"

definition indent_writes :: "nat \<Rightarrow> string list" where
  "indent_writes d = (if d = 0 then [] else [concat (replicate d TAB)])"

fun pop_writes :: "nat \<Rightarrow> nat \<Rightarrow> string list" where
  "pop_writes d 0 = []"
| "pop_writes d (Suc k) = indent_writes (d - 1) @ [close_marker] @ pop_writes (d - 1) k"

fun push_writes :: "nat \<Rightarrow> string list \<Rightarrow> string list" where
  "push_writes d [] = []"
| "push_writes d (x # xs) = indent_writes d @ [open_marker x] @ push_writes (Suc d) xs"

section \<open>The writes of the namespace tracker\<close>

lemma is_open_open_marker: "is_open (open_marker d)"
  by (simp add: is_open_def open_marker_def print_text_def)

lemma not_close_open_marker: "\<not> is_close (open_marker d)"
  by (simp add: is_close_def open_marker_def print_text_def)

lemma is_close_close_marker: "is_close close_marker" "\<not> is_open close_marker"
  by (simp_all add: is_close_def is_open_def close_marker_def print_text_def)

lemma indent_chars: "c \<in> set (concat (replicate d TAB)) \<Longrightarrow> c = CHR '' ''"
  by (induction d) (auto simp: TAB_def)

lemma is_open_has_n: "is_open w \<Longrightarrow> CHR ''n'' \<in> set w"
  by (cases w) (auto simp: is_open_def)

lemma is_close_has_brace: "is_close w \<Longrightarrow> CHR ''}'' \<in> set w"
  by (simp add: is_close_def)

lemma indent_not_marker: "w \<in> set (indent_writes d) \<Longrightarrow> \<not> is_open w \<and> \<not> is_close w"
  using indent_chars [of "CHR ''n''" d] indent_chars [of "CHR ''}''" d]
  by (auto simp: indent_writes_def split: if_splits dest: is_open_has_n is_close_has_brace)

lemma filter_indent [simp]:
  "filter is_open (indent_writes d) = []" "filter is_close (indent_writes d) = []"
  using indent_not_marker [of _ d] by (simp_all add: filter_empty_conv)

lemma filter_pop_writes:
  "filter is_close (pop_writes d k) = replicate k close_marker"
  "filter is_open (pop_writes d k) = []"
  by (induction k arbitrary: d) (simp_all add: is_close_close_marker)

lemma filter_push_writes:
  "filter is_open (push_writes d xs) = map open_marker xs"
  "filter is_close (push_writes d xs) = []"
  by (induction xs arbitrary: d) (simp_all add: is_open_open_marker not_close_open_marker)

lemma pop_ns_exact:
  "\<not> in_footer s \<Longrightarrow> k \<le> length (namespaces s) \<Longrightarrow>
     pop_ns s k = Inr (s\<lparr>namespaces := take (length (namespaces s) - k) (namespaces s),
                         dest := dest s @ pop_writes (length (namespaces s)) k\<rparr>)"
proof (induction k arbitrary: s)
  case 0
  then show ?case by simp
next
  case (Suc k)
  let ?ns = "namespaces s"
  let ?t = "PUML_Generator_NS_output (s\<lparr>namespaces := butlast ?ns\<rparr>) [''}'']"
  from Suc.prems have ne: "?ns \<noteq> []" by auto
  have t: "?t = s\<lparr>namespaces := butlast ?ns,
                  dest := dest s @ indent_writes (length ?ns - 1) @ [close_marker]\<rparr>"
    using Suc.prems(1) ne
    by (cases ?ns rule: rev_cases)
      (auto simp: PUML_Generator_NS_output_def PUML_Generator_output_def depth_def
        indent_writes_def close_marker_def)
  have "pop_ns s (Suc k) = pop_ns ?t k" using ne by simp
  also have "\<dots> = Inr (?t\<lparr>namespaces := take (length (namespaces ?t) - k) (namespaces ?t),
                         dest := dest ?t @ pop_writes (length (namespaces ?t)) k\<rparr>)"
    using Suc.prems by (intro Suc.IH) (simp_all add: t)
  also have "\<dots> = Inr (s\<lparr>namespaces := take (length ?ns - Suc k) ?ns,
                         dest := dest s @ pop_writes (length ?ns) (Suc k)\<rparr>)"
    using ne by (subst t)+ (cases ?ns rule: rev_cases, simp_all add: butlast_conv_take min_def)
  finally show ?case .
qed

lemma push_ns_exact:
  "\<not> in_footer s \<Longrightarrow>
     push_ns s name = s\<lparr>dest := dest s @ indent_writes (length (namespaces s)) @ [open_marker name],
                        namespaces := namespaces s @ [name]\<rparr>"
  by (auto simp: push_ns_def PUML_Generator_NS_output_def PUML_Generator_output_def depth_def
      indent_writes_def open_marker_def Let_def)

lemma foldl_push_ns_exact:
  "\<not> in_footer s \<Longrightarrow>
     foldl push_ns s xs = s\<lparr>dest := dest s @ push_writes (length (namespaces s)) xs,
                            namespaces := namespaces s @ xs\<rparr>"
proof (induction xs arbitrary: s)
  case Nil
  then show ?case by simp
next
  case (Cons x xs)
  let ?t = "push_ns s x"
  have t: "?t = s\<lparr>dest := dest s @ indent_writes (length (namespaces s)) @ [open_marker x],
                        namespaces := namespaces s @ [x]\<rparr>"
    using Cons.prems by (rule push_ns_exact)
  have "\<not> in_footer ?t" using Cons.prems by (simp add: t)
  from Cons.IH [OF this] show ?case
    by (simp add: t)
qed

lemma common_path_lcp:
  "n \<le> length new \<Longrightarrow> common_path ds new n = n + length (longest_common_prefix ds (drop n new))"
proof (induction ds new n rule: common_path.induct)
  case (1 new n)
  then show ?case by simp
next
  case (2 d ds new n)
  show ?case
  proof (cases "n < length new")
    case True
    then have dn: "drop n new = new ! n # drop (Suc n) new"
      by (simp add: Cons_nth_drop_Suc)
    show ?thesis using True 2 by (auto simp: dn)
  next
    case False
    then show ?thesis using 2 by simp
  qed
qed

lemma common_path_0: "common_path ds new 0 = length (longest_common_prefix ds new)"
  using common_path_lcp [of 0 new ds] by simp

lemma lcp_take:
  "take (length (longest_common_prefix xs ys)) xs = longest_common_prefix xs ys"
  "take (length (longest_common_prefix xs ys)) ys = longest_common_prefix xs ys"
  by (induction xs ys rule: longest_common_prefix.induct) auto

lemma lcp_length_le:
  "length (longest_common_prefix xs ys) \<le> length xs"
  "length (longest_common_prefix xs ys) \<le> length ys"
  by (induction xs ys rule: longest_common_prefix.induct) auto

lemma start_file_exact:
  assumes rp: "relpath src (root s) = Inr p" and nf: "\<not> in_footer s"
  shows "PUML_Generator_NS_start_file relpath s src =
     Inr (s\<lparr>sourcename := Some src,
            namespaces := file_namespaces p,
            dest := dest s
              @ pop_writes (length (namespaces s))
                  (length (namespaces s) - length (longest_common_prefix (namespaces s) (file_namespaces p)))
              @ push_writes (length (longest_common_prefix (namespaces s) (file_namespaces p)))
                  (drop (length (longest_common_prefix (namespaces s) (file_namespaces p))) (file_namespaces p))\<rparr>)"
proof -
  let ?new = "file_namespaces p"
  let ?old = "namespaces s"
  let ?n = "length (longest_common_prefix ?old ?new)"
  let ?s1 = "PUML_Generator_start_file s src"
  have s1: "namespaces ?s1 = ?old" "\<not> in_footer ?s1" "root ?s1 = root s" "dest ?s1 = dest s"
    using nf by (simp_all add: PUML_Generator_start_file_def)
  have pop: "pop_ns ?s1 (length ?old - ?n) =
      Inr (?s1\<lparr>namespaces := take (length ?old - (length ?old - ?n)) ?old,
                dest := dest s @ pop_writes (length ?old) (length ?old - ?n)\<rparr>)"
    using pop_ns_exact [of ?s1 "length ?old - ?n"] s1 by simp
  have tk: "take (length ?old - (length ?old - ?n)) ?old = take ?n ?new"
    using lcp_length_le(1) [of ?old ?new] by (simp add: lcp_take)
  let ?s2 = "?s1\<lparr>namespaces := take ?n ?new,
                dest := dest s @ pop_writes (length ?old) (length ?old - ?n)\<rparr>"
  have push: "foldl push_ns ?s2 (drop ?n ?new) =
     ?s2\<lparr>dest := dest ?s2 @ push_writes (length (namespaces ?s2)) (drop ?n ?new),
         namespaces := namespaces ?s2 @ drop ?n ?new\<rparr>"
    by (rule foldl_push_ns_exact) (simp add: s1)
  have len: "length (take ?n ?new) = ?n"
    using lcp_length_le(2) [of ?old ?new] by simp
  show ?thesis
    unfolding PUML_Generator_NS_start_file_def Let_def
    by (simp add: s1 rp common_path_0 pop tk push len del: length_take) (simp add: PUML_Generator_start_file_def)
qed

lemma filter_marker_pop_writes:
  "filter (\<lambda>w. is_open w \<or> is_close w) (pop_writes d k) = replicate k close_marker"
proof -
  have "filter (\<lambda>w. is_open w \<or> is_close w) (pop_writes d k) = filter is_close (pop_writes d k)"
    using filter_pop_writes(2) [of d k] by (auto simp: filter_empty_conv intro: filter_cong)
  then show ?thesis by (simp add: filter_pop_writes)
qed

lemma filter_marker_push_writes:
  "filter (\<lambda>w. is_open w \<or> is_close w) (push_writes d xs) = map open_marker xs"
proof -
  have "filter (\<lambda>w. is_open w \<or> is_close w) (push_writes d xs) = filter is_open (push_writes d xs)"
    using filter_push_writes(2) [of d xs] by (auto simp: filter_empty_conv intro: filter_cong)
  then show ?thesis by (simp add: filter_push_writes)
qed

lemma start_files_balance:
  assumes "\<forall>src \<in> set srcs. \<exists>p. relpath src (root s) = Inr p" and "\<not> in_footer s"
  shows "\<exists>s' ws. start_files relpath s srcs = Inr s' \<and> dest s' = dest s @ ws
      \<and> \<not> in_footer s'
      \<and> length (filter is_open ws) + length (namespaces s)
          = length (filter is_close ws) + length (namespaces s')"
  using assms
proof (induction srcs arbitrary: s)
  case Nil
  then show ?case by simp
next
  case (Cons src srcs)
  from Cons.prems obtain p where rp: "relpath src (root s) = Inr p" by auto
  let ?old = "namespaces s" and ?new = "file_namespaces p"
  let ?n = "length (longest_common_prefix ?old ?new)"
  let ?ws1 = "pop_writes (length ?old) (length ?old - ?n) @ push_writes ?n (drop ?n ?new)"
  let ?s1 = "s\<lparr>sourcename := Some src, namespaces := ?new, dest := dest s @ ?ws1\<rparr>"
  have s1: "PUML_Generator_NS_start_file relpath s src = Inr ?s1"
    using start_file_exact [of relpath src s p, OF rp Cons.prems(2)] by simp
  have "\<forall>src \<in> set srcs. \<exists>p. relpath src (root ?s1) = Inr p" "\<not> in_footer ?s1"
    using Cons.prems by simp_all
  from Cons.IH [OF this] obtain s' ws where
    run: "start_files relpath ?s1 srcs = Inr s'" and d: "dest s' = dest ?s1 @ ws"
    and nf: "\<not> in_footer s'"
    and bal: "length (filter is_open ws) + length (namespaces ?s1)
          = length (filter is_close ws) + length (namespaces s')"
    by blast
  have le: "?n \<le> length ?old" "?n \<le> length ?new"
    by (rule lcp_length_le)+
  show ?case
    using run d nf bal le
    by (intro exI [of _ s'] exI [of _ "?ws1 @ ws"])
      (simp add: s1 filter_pop_writes filter_push_writes)
qed

lemma self_output_in_footer:
  "in_footer s \<Longrightarrow> namespaces s = [] \<Longrightarrow>
     self_output s ws = s\<lparr>footer_dest := footer_dest s @ [print_text ws]\<rparr>"
  by (simp add: self_output_def PUML_Generator_NS_output_def PUML_Generator_output_def
      split: gen_class.splits)

lemma footer_relations_frame:
  "in_footer s \<Longrightarrow> namespaces s = [] \<Longrightarrow>
     dest (footer_relations s rs) = dest s \<and> namespaces (footer_relations s rs) = []
     \<and> in_footer (footer_relations s rs) \<and> config (footer_relations s rs) = config s"
  by (induction s rs rule: footer_relations.induct)
    (simp_all add: self_output_in_footer Let_def)

lemma footer_frame:
  assumes "namespaces s = []"
  shows "dest (PUML_Generator_footer s) = dest s \<and> namespaces (PUML_Generator_footer s) = []"
proof -
  let ?s1 = "s\<lparr>in_footer := True\<rparr>"
  let ?s2 = "footer_relations ?s1 (inherit_relations ?s1)"
  have s2: "dest ?s2 = dest s" "namespaces ?s2 = []" "in_footer ?s2"
    using footer_relations_frame [of ?s1 "inherit_relations ?s1"] assms by simp_all
  show ?thesis
    unfolding PUML_Generator_footer_def Let_def
    using s2 by (simp add: self_output_in_footer split: option.splits pyval.splits)
qed

lemma close_namespaces_exact:
  assumes "\<not> in_footer s"
  shows "close_namespaces s =
     Inr (if namespaces s = [] then s
          else s\<lparr>namespaces := [], dest := dest s @ pop_writes (depth s) (depth s)\<rparr>)"
proof (cases "namespaces s = []")
  case True
  then show ?thesis by (subst close_namespaces.simps) simp
next
  case False
  let ?t = "s\<lparr>namespaces := [], dest := dest s @ pop_writes (depth s) (depth s)\<rparr>"
  have pop: "pop_ns s (depth s) = Inr ?t"
    using pop_ns_exact [OF assms, of "depth s"] by (simp add: depth_def)
  have "close_namespaces ?t = Inr ?t"
    by (subst close_namespaces.simps) simp
  then show ?thesis
    using False pop by (subst close_namespaces.simps) simp
qed

section \<open>Copies in the store\<close>

lemma deepcopy_list_step:
  assumes dc: "deepcopy_list h m a = (a', h', m')"
    and n: "n \<le> nxt h"
    and mi: "\<forall>b b'. (b, b') \<in> set m \<longrightarrow> n \<le> b' \<and> b' < nxt h"
  shows "nxt h \<le> nxt h'" and "\<forall>b b'. (b, b') \<in> set m' \<longrightarrow> n \<le> b' \<and> b' < nxt h'"
    and "n \<le> a'" and "a' < nxt h'" and "\<forall>b<nxt h. listobjs h' b = listobjs h b"
    and "argobjs h' = argobjs h" and "log h' = log h"
  using assms
  by (auto simp: deepcopy_list_def new_list_def less_Suc_eq split: option.splits dest!: map_of_SomeD)

lemma deepcopy_list_content:
  assumes dc: "deepcopy_list h m a = (a', h', m')"
    and n: "n \<le> nxt h"
    and mi: "\<forall>b b'. (b, b') \<in> set m \<longrightarrow> b' < nxt h \<and> listobjs h b' = L b"
    and orig: "\<forall>b<n. listobjs h b = L b"
    and a: "a < n"
  shows "listobjs h' a' = L a"
    and "\<forall>b b'. (b, b') \<in> set m' \<longrightarrow> b' < nxt h' \<and> listobjs h' b' = L b"
    and "\<forall>b<n. listobjs h' b = L b"
proof -
  from mi have fresh: "\<And>b. (b, nxt h) \<notin> set m" by fastforce
  show "listobjs h' a' = L a"
    using dc mi orig a n
    by (auto simp: deepcopy_list_def new_list_def split: option.splits dest!: map_of_SomeD)
  show "\<forall>b b'. (b, b') \<in> set m' \<longrightarrow> b' < nxt h' \<and> listobjs h' b' = L b"
    using dc mi orig a n fresh
    by (auto simp: deepcopy_list_def new_list_def less_Suc_eq split: option.splits dest!: map_of_SomeD)
  show "\<forall>b<n. listobjs h' b = L b"
    using dc orig n
    by (auto simp: deepcopy_list_def new_list_def split: option.splits)
qed

lemma deepcopy_list_keys:
  assumes dc: "deepcopy_list h m a = (a', h', m')"
  shows "fst ` set m' = insert a (fst ` set m)" and "a \<notin> fst ` set m \<Longrightarrow> a' = nxt h"
proof -
  show "fst ` set m' = insert a (fst ` set m)"
  proof (cases "map_of m a")
    case None
    then show ?thesis using dc by (auto simp: deepcopy_list_def new_list_def)
  next
    case (Some b)
    then have "(a, b) \<in> set m" by (rule map_of_SomeD)
    then have "a \<in> fst ` set m" by force
    then show ?thesis using dc Some by (auto simp: deepcopy_list_def)
  qed
  show "a \<notin> fst ` set m \<Longrightarrow> a' = nxt h"
    using dc by (auto simp: deepcopy_list_def new_list_def map_of_eq_None_iff [symmetric])
qed

lemma deepcopy_props:
  assumes dc: "deepcopy h a = (a', h')"
  shows "nxt h \<le> a'" and "nxt h' = Suc a'"
    and "\<And>b. b < nxt h \<Longrightarrow> listobjs h' b = listobjs h b"
    and "\<And>b. b \<noteq> a' \<Longrightarrow> argobjs h' b = argobjs h b"
    and "log h' = log h"
    and "nxt h \<le> o_posonlyargs (argobjs h' a') \<and> o_posonlyargs (argobjs h' a') < a'"
    and "nxt h \<le> o_args (argobjs h' a') \<and> o_args (argobjs h' a') < a'"
    and "nxt h \<le> o_kwonlyargs (argobjs h' a') \<and> o_kwonlyargs (argobjs h' a') < a'"
    and "nxt h \<le> o_kw_defaults (argobjs h' a') \<and> o_kw_defaults (argobjs h' a') < a'"
    and "nxt h \<le> o_defaults (argobjs h' a') \<and> o_defaults (argobjs h' a') < a'"
    and "(\<forall>f \<in> {o_posonlyargs, o_args, o_kwonlyargs, o_kw_defaults, o_defaults}. f (argobjs h a) < nxt h)
         \<Longrightarrow> read_arguments h' a' = read_arguments h a"
    and "distinct [o_posonlyargs (argobjs h a), o_args (argobjs h a), o_kwonlyargs (argobjs h a),
                   o_kw_defaults (argobjs h a), o_defaults (argobjs h a)]
         \<Longrightarrow> distinct [o_posonlyargs (argobjs h' a'), o_args (argobjs h' a'),
                   o_kwonlyargs (argobjs h' a'), o_kw_defaults (argobjs h' a'),
                   o_defaults (argobjs h' a')]"
proof -
  let ?x = "argobjs h a"
  obtain p h1 m1 where s1: "deepcopy_list h [] (o_posonlyargs ?x) = (p, h1, m1)"
    by (metis prod_cases3)
  obtain r h2 m2 where s2: "deepcopy_list h1 m1 (o_args ?x) = (r, h2, m2)"
    by (metis prod_cases3)
  obtain k h3 m3 where s3: "deepcopy_list h2 m2 (o_kwonlyargs ?x) = (k, h3, m3)"
    by (metis prod_cases3)
  obtain kd h4 m4 where s4: "deepcopy_list h3 m3 (o_kw_defaults ?x) = (kd, h4, m4)"
    by (metis prod_cases3)
  obtain d h5 m5 where s5: "deepcopy_list h4 m4 (o_defaults ?x) = (d, h5, m5)"
    by (metis prod_cases3)
  let ?y = "\<lparr>o_posonlyargs = p, o_args = r, o_vararg = o_vararg ?x, o_kwonlyargs = k,
             o_kw_defaults = kd, o_kwarg = o_kwarg ?x, o_defaults = d\<rparr>"
  from dc have a': "a' = nxt h5" and h': "h' = h5\<lparr>argobjs := (argobjs h5)(nxt h5 := ?y), nxt := Suc (nxt h5)\<rparr>"
    by (auto simp: deepcopy_def Let_def s1 s2 s3 s4 s5)
  have n0: "nxt h \<le> nxt h" by simp
  have e0: "\<forall>b b'. (b, b') \<in> set [] \<longrightarrow> nxt h \<le> b' \<and> b' < nxt h" by simp
  note i1 = deepcopy_list_step [OF s1 n0 e0]
  note i2 = deepcopy_list_step [OF s2 i1(1) i1(2)]
  have n2: "nxt h \<le> nxt h2" using i1(1) i2(1) by simp
  note i3 = deepcopy_list_step [OF s3 n2 i2(2)]
  have n3: "nxt h \<le> nxt h3" using n2 i3(1) by simp
  note i4 = deepcopy_list_step [OF s4 n3 i3(2)]
  have n4: "nxt h \<le> nxt h4" using n3 i4(1) by simp
  note i5 = deepcopy_list_step [OF s5 n4 i4(2)]
  have n5: "nxt h \<le> nxt h5" using n4 i5(1) by simp
  show "nxt h \<le> a'" using n5 a' by simp
  show "nxt h' = Suc a'" using a' h' by simp
  have mono: "nxt h \<le> nxt h1" "nxt h \<le> nxt h2" "nxt h \<le> nxt h3" "nxt h \<le> nxt h4"
    using i1(1) n2 n3 n4 by simp_all
  show "\<And>b. b < nxt h \<Longrightarrow> listobjs h' b = listobjs h b"
  proof -
    fix b assume b: "b < nxt h"
    have "listobjs h' b = listobjs h5 b" by (simp add: h')
    also have "\<dots> = listobjs h4 b" using b mono i5(5) by simp
    also have "\<dots> = listobjs h3 b" using b mono i4(5) by simp
    also have "\<dots> = listobjs h2 b" using b mono i3(5) by simp
    also have "\<dots> = listobjs h1 b" using b mono i2(5) by simp
    also have "\<dots> = listobjs h b" using b i1(5) by simp
    finally show "listobjs h' b = listobjs h b" .
  qed
  show "\<And>b. b \<noteq> a' \<Longrightarrow> argobjs h' b = argobjs h b"
    using i1(6) i2(6) i3(6) i4(6) i5(6) h' a' by simp
  show "log h' = log h"
    using i1(7) i2(7) i3(7) i4(7) i5(7) h' by simp
  have y: "argobjs h' a' = ?y" using h' a' by simp
  show "nxt h \<le> o_posonlyargs (argobjs h' a') \<and> o_posonlyargs (argobjs h' a') < a'"
    using y a' i1(3,4) i2(1) i3(1) i4(1) i5(1) by simp
  show "nxt h \<le> o_args (argobjs h' a') \<and> o_args (argobjs h' a') < a'"
    using y a' i2(3,4) i3(1) i4(1) i5(1) by simp
  show "nxt h \<le> o_kwonlyargs (argobjs h' a') \<and> o_kwonlyargs (argobjs h' a') < a'"
    using y a' i3(3,4) i4(1) i5(1) by simp
  show "nxt h \<le> o_kw_defaults (argobjs h' a') \<and> o_kw_defaults (argobjs h' a') < a'"
    using y a' i4(3,4) i5(1) by simp
  show "nxt h \<le> o_defaults (argobjs h' a') \<and> o_defaults (argobjs h' a') < a'"
    using y a' i5(3,4) by simp
  {
    assume di: "distinct [o_posonlyargs ?x, o_args ?x, o_kwonlyargs ?x, o_kw_defaults ?x, o_defaults ?x]"
    note q1 = deepcopy_list_keys [OF s1]
    note q2 = deepcopy_list_keys [OF s2]
    note q3 = deepcopy_list_keys [OF s3]
    note q4 = deepcopy_list_keys [OF s4]
    note q5 = deepcopy_list_keys [OF s5]
    have r: "r = nxt h1" using q2(2) q1(1) di by auto
    have k: "k = nxt h2" using q3(2) q2(1) q1(1) di by auto
    have kd: "kd = nxt h3" using q4(2) q3(1) q2(1) q1(1) di by auto
    have d: "d = nxt h4" using q5(2) q4(1) q3(1) q2(1) q1(1) di by auto
    have "p < r" using r i1(4) by simp
    moreover have "r < k" using k i2(4) by simp
    moreover have "k < kd" using kd i3(4) by simp
    moreover have "kd < d" using d i4(4) by simp
    ultimately show "distinct [o_posonlyargs (argobjs h' a'), o_args (argobjs h' a'),
                   o_kwonlyargs (argobjs h' a'), o_kw_defaults (argobjs h' a'),
                   o_defaults (argobjs h' a')]"
      using y by simp
  }
  assume wf: "\<forall>f \<in> {o_posonlyargs, o_args, o_kwonlyargs, o_kw_defaults, o_defaults}. f (argobjs h a) < nxt h"
  let ?L = "listobjs h"
  have w: "o_posonlyargs ?x < nxt h" "o_args ?x < nxt h" "o_kwonlyargs ?x < nxt h"
    "o_kw_defaults ?x < nxt h" "o_defaults ?x < nxt h"
    using wf by simp_all
  have e0': "\<forall>b b'. (b, b') \<in> set [] \<longrightarrow> b' < nxt h \<and> listobjs h b' = ?L b" by simp
  have o0: "\<forall>b<nxt h. listobjs h b = ?L b" by simp
  note k1 = deepcopy_list_content [OF s1 n0 e0' o0 w(1)]
  note k2 = deepcopy_list_content [OF s2 i1(1) k1(2) k1(3) w(2)]
  note k3 = deepcopy_list_content [OF s3 n2 k2(2) k2(3) w(3)]
  note k4 = deepcopy_list_content [OF s4 n3 k3(2) k3(3) w(4)]
  note k5 = deepcopy_list_content [OF s5 n4 k4(2) k4(3) w(5)]
  have "listobjs h5 p = listobjs h1 p"
    using i1(4) i2(1,5) i3(1,5) i4(1,5) i5(5) by simp
  then have p5: "listobjs h5 p = ?L (o_posonlyargs ?x)" using k1(1) by simp
  have "listobjs h5 r = listobjs h2 r"
    using i2(4) i3(1,5) i4(1,5) i5(5) by simp
  then have r5: "listobjs h5 r = ?L (o_args ?x)" using k2(1) by simp
  have "listobjs h5 k = listobjs h3 k"
    using i3(4) i4(1,5) i5(5) by simp
  then have k5': "listobjs h5 k = ?L (o_kwonlyargs ?x)" using k3(1) by simp
  have "listobjs h5 kd = listobjs h4 kd"
    using i4(4) i5(5) by simp
  then have kd5: "listobjs h5 kd = ?L (o_kw_defaults ?x)" using k4(1) by simp
  from p5 r5 k5' kd5
  show "read_arguments h' a' = read_arguments h a"
    using k5(1) by (simp add: read_arguments_def Let_def y) (simp add: h')
qed

section \<open>The steps of arglist on the copy\<close>

lemma pop_self_value:
  assumes "distinct [o_posonlyargs (argobjs h a), o_args (argobjs h a), o_kwonlyargs (argobjs h a),
                   o_kw_defaults (argobjs h a), o_defaults (argobjs h a)]"
  shows "args (read_arguments h a) = [] \<Longrightarrow> pop_self h a fdef = (Inl IndexError, h)"
    and "args (read_arguments h a) = x # xs \<Longrightarrow>
           fst (pop_self h a fdef) = map_sum id (\<lambda>_. ()) (node_arg x)
           \<and> read_arguments (snd (pop_self h a fdef)) a = (read_arguments h a)\<lparr>args := xs\<rparr>
           \<and> argobjs (snd (pop_self h a fdef)) = argobjs h
           \<and> nxt (snd (pop_self h a fdef)) = nxt h"
  using assms
  by (auto simp: pop_self_def read_arguments_def Let_def split: sum.splits)

lemma pop_self_frame:
  assumes "n \<le> o_args (argobjs h a)"
  shows "\<forall>b<n. listobjs (snd (pop_self h a fdef)) b = listobjs h b"
    and "argobjs (snd (pop_self h a fdef)) = argobjs h"
    and "nxt (snd (pop_self h a fdef)) = nxt h"
  using assms
  by (auto simp: pop_self_def Let_def split: list.splits sum.splits)

lemma clear_defaults_value:
  assumes "o_posonlyargs (argobjs h a) < nxt h" and "o_args (argobjs h a) < nxt h"
    and "o_kwonlyargs (argobjs h a) < nxt h"
  shows "read_arguments (clear_defaults h a) a = (read_arguments h a)\<lparr>kw_defaults := [], defaults := []\<rparr>"
  using assms
  by (simp add: clear_defaults_def new_list_def read_arguments_def Let_def)

lemma clear_defaults_frame:
  assumes "n \<le> nxt h" and "n \<le> a"
  shows "\<forall>b<n. listobjs (clear_defaults h a) b = listobjs h b"
    and "\<forall>b<n. argobjs (clear_defaults h a) b = argobjs h b"
  using assms
  by (simp_all add: clear_defaults_def new_list_def Let_def)


lemma arglist_value:
  assumes al: "allocated h fdef"
  shows "fst (arglist to_source c h fdef ismethod)
         = arglist_on_value to_source c (read_arguments h (fd_args fdef)) fdef ismethod"
proof -
  obtain a h1 where dc: "deepcopy h (fd_args fdef) = (a, h1)"
    by (cases "deepcopy h (fd_args fdef)")
  let ?v = "read_arguments h (fd_args fdef)"
  note d = deepcopy_props [OF dc]
  have rv: "read_arguments h1 a = ?v"
    using al by (intro d(11)) (simp add: allocated_def in_store_def Let_def)
  have di: "distinct [o_posonlyargs (argobjs h1 a), o_args (argobjs h1 a),
      o_kwonlyargs (argobjs h1 a), o_kw_defaults (argobjs h1 a), o_defaults (argobjs h1 a)]"
    using al by (intro d(12)) (simp add: allocated_def in_store_def Let_def)
  have bounds: "o_posonlyargs (argobjs h1 a) < nxt h1" "o_args (argobjs h1 a) < nxt h1"
    "o_kwonlyargs (argobjs h1 a) < nxt h1"
    using d(2,6,7,8) by simp_all
  have nopop: "read_arguments (clear_defaults h1 a) a = ?v\<lparr>kw_defaults := [], defaults := []\<rparr>"
    using clear_defaults_value [OF bounds] rv by simp
  have pop_nil: "args ?v = [] \<Longrightarrow> fst (pop_self h1 a fdef) = Inl IndexError"
    using pop_self_value(1) [OF di, of fdef] rv by simp
  {
    fix x xs assume xs: "args ?v = x # xs"
    let ?h2 = "snd (pop_self h1 a fdef)"
    note p = pop_self_value(2) [OF di, of x xs fdef]
    have p1: "fst (pop_self h1 a fdef) = map_sum id (\<lambda>_. ()) (node_arg x)"
      and p2: "read_arguments ?h2 a = ?v\<lparr>args := xs\<rparr>"
      and p3: "argobjs ?h2 = argobjs h1" and p4: "nxt ?h2 = nxt h1"
      using p xs rv by simp_all
    have "read_arguments (clear_defaults ?h2 a) a = ?v\<lparr>args := xs, kw_defaults := [], defaults := []\<rparr>"
      using clear_defaults_value [of ?h2 a] bounds p2 p3 p4 by simp
    note p1 p2 this
  }
  note pop_cons = this
  show ?thesis
  proof (cases "args ?v")
    case Nil
    then show ?thesis
      using pop_nil nopop rv
      by (auto simp: arglist_def arglist_on_value_def dc Let_def split: sum.splits prod.splits)
  next
    case (Cons x xs)
    then show ?thesis
      using pop_cons [OF Cons] nopop rv
      by (cases "pop_self h1 a fdef"; cases "node_arg x")
        (auto simp: arglist_def arglist_on_value_def dc Let_def split: sum.splits prod.splits)
  qed
qed

lemma arglist_store_cases:
  assumes dc: "deepcopy h (fd_args fdef) = (a, h1)"
  shows "snd (arglist to_source c h fdef ismethod)
         \<in> {h, h1, snd (pop_self h1 a fdef), clear_defaults h1 a,
            clear_defaults (snd (pop_self h1 a fdef)) a}"
proof -
  let ?sec = "if ismethod then ''methods'' else ''module''"
  show ?thesis
  proof (cases "opt_write_arglist c ?sec")
    case (Inl e)
    then show ?thesis by (simp add: arglist_def Let_def)
  next
    case w: (Inr w)
    show ?thesis
    proof (cases "truthy w")
      case False
      then show ?thesis using w by (simp add: arglist_def Let_def)
    next
      case True
      show ?thesis
      proof (cases "omit_self_cond c fdef ismethod")
        case (Inl e)
        then show ?thesis using w True by (simp add: arglist_def Let_def dc)
      next
        case om: (Inr omit)
        obtain r h2 where ps: "(if omit then pop_self h1 a fdef else (Inr (), h1)) = (r, h2)"
          by (cases "if omit then pop_self h1 a fdef else (Inr (), h1)")
        then have h2: "h2 = h1 \<or> h2 = snd (pop_self h1 a fdef)"
          by (auto split: if_splits)
        show ?thesis
        proof (cases r)
          case (Inl e)
          then show ?thesis using w True om ps h2
            by (auto simp: arglist_def Let_def dc)
        next
          case (Inr u)
          then show ?thesis using w True om ps h2
            by (cases "opt_omit_defaults c ?sec") (auto simp: arglist_def Let_def dc)
        qed
      qed
    qed
  qed
qed


lemma arglist_frame:
  "\<forall>b<nxt h. listobjs (snd (arglist to_source c h fdef ismethod)) b = listobjs h b
            \<and> argobjs (snd (arglist to_source c h fdef ismethod)) b = argobjs h b"
proof -
  obtain a h1 where dc: "deepcopy h (fd_args fdef) = (a, h1)"
    by (cases "deepcopy h (fd_args fdef)")
  note d = deepcopy_props [OF dc]
  let ?h2 = "snd (pop_self h1 a fdef)"
  let ?F = "\<lambda>h'. \<forall>b<nxt h. listobjs h' b = listobjs h b \<and> argobjs h' b = argobjs h b"
  have f1: "?F h1" using d(1,3,4) by simp
  have "nxt h \<le> o_args (argobjs h1 a)" using d(7) by simp
  note p = pop_self_frame [OF this, of fdef]
  have f2: "?F ?h2" using f1 p(1,2) by simp
  have n1: "nxt h \<le> nxt h1" "nxt h \<le> a" using d(1,2) by simp_all
  note c1 = clear_defaults_frame [OF n1]
  have f3: "?F (clear_defaults h1 a)" using f1 c1 by simp
  have n2: "nxt h \<le> nxt ?h2" using n1 p(3) by simp
  note c2 = clear_defaults_frame [OF n2 n1(2)]
  have f4: "?F (clear_defaults ?h2 a)" using f2 c2 by simp
  have f0: "?F h" by simp
  from arglist_store_cases [OF dc, of to_source c ismethod]
  consider "snd (arglist to_source c h fdef ismethod) = h"
    | "snd (arglist to_source c h fdef ismethod) = h1"
    | "snd (arglist to_source c h fdef ismethod) = ?h2"
    | "snd (arglist to_source c h fdef ismethod) = clear_defaults h1 a"
    | "snd (arglist to_source c h fdef ismethod) = clear_defaults ?h2 a"
    by blast
  then show ?thesis
  proof cases
    case 1 then show ?thesis by simp
  next
    case 2 then show ?thesis using f1 by simp
  next
    case 3 then show ?thesis using f2 by simp
  next
    case 4 then show ?thesis using f3 by simp
  next
    case 5 then show ?thesis using f4 by simp
  qed
qed

section \<open>Decorators, errors and sample stores\<close>

lemma static_decorator_iff:
  "truthy (static_decorator decs) \<longleftrightarrow> Name ''staticmethod'' \<in> set decs"
  by (induction decs) (auto split: expr.splits)

lemma cfg_getboolean_error: "cfg_getboolean cfg sec opt fb = Inl e \<Longrightarrow> e = ValueError"
  by (auto simp: cfg_getboolean_def split: option.splits if_splits)

lemma opt_errors:
  "opt_write_arglist c sec = Inl e \<Longrightarrow> e = ValueError"
  "opt_omit_defaults c sec = Inl e \<Longrightarrow> e = ValueError"
  "opt_omit_self c = Inl e \<Longrightarrow> e = ValueError"
  by (auto simp: opt_write_arglist_def opt_omit_defaults_def opt_omit_self_def
      split: option.splits dest: cfg_getboolean_error)

lemma arglist_function_error:
  assumes "fst (arglist to_source c h fdef False) = Inl e"
  shows "e = ValueError"
proof -
  obtain a h1 where dc: "deepcopy h (fd_args fdef) = (a, h1)"
    by (cases "deepcopy h (fd_args fdef)")
  show ?thesis
    using assms
    by (auto simp: arglist_def Let_def dc omit_self_cond_def
        split: sum.splits if_splits dest: opt_errors)
qed

lemma codeinfo_functions_error:
  "codeinfo_functions to_source visibility sh fs = Inl e \<Longrightarrow> e = ValueError"
proof (induction to_source visibility sh fs rule: codeinfo_functions.induct)
  case (1 to_source visibility s h)
  then show ?case by simp
next
  case (2 to_source visibility s h fdef rest)
  show ?case
  proof (cases "arglist to_source (config s) h fdef False")
    case (Pair r h')
    show ?thesis
    proof (cases r)
      case (Inl e')
      then have "fst (arglist to_source (config s) h fdef False) = Inl e'" using Pair by simp
      then have "e' = ValueError" by (rule arglist_function_error)
      then show ?thesis using "2.prems" Pair Inl by simp
    next
      case (Inr al)
      then show ?thesis using 2 Pair by simp
    qed
  qed
qed

lemma alloc_arguments_read:
  "read_arguments (snd (alloc_arguments h v)) (fst (alloc_arguments h v)) = v"
  by (simp add: alloc_arguments_def new_list_def read_arguments_def Let_def)

lemma alloc_arguments_allocated:
  "fd_args fdef = fst (alloc_arguments h v) \<Longrightarrow> allocated (snd (alloc_arguments h v)) fdef"
  by (simp add: alloc_arguments_def new_list_def allocated_def in_store_def Let_def)

lemma alloc_arguments_keeps:
  "allocated h fdef \<Longrightarrow> allocated (snd (alloc_arguments h v)) fdef
     \<and> read_arguments (snd (alloc_arguments h v)) (fd_args fdef) = read_arguments h (fd_args fdef)"
  by (simp add: alloc_arguments_def new_list_def allocated_def in_store_def read_arguments_def Let_def)

lemma split_chr_nonempty: "split_chr c s \<noteq> []"
  by (induction s) (auto split: list.splits)

lemma classinfo_bases_closed:
  "classinfo_bases to_source cname (s, pfx) bs =
     (s\<lparr>inherit_relations := inherit_relations s @ recorded_relations cname (base_texts to_source bs)\<rparr>,
      marker_prefix pfx (base_texts to_source bs))"
proof (induction bs arbitrary: s pfx)
  case Nil
  then show ?case by (simp add: recorded_relations_def base_texts_def marker_prefix_def)
next
  case (Cons b bs)
  show ?case
    by (simp add: Cons.IH Let_def) (auto simp: recorded_relations_def base_texts_def marker_prefix_def split: list.splits)
qed

section \<open>The footer and the body of a class\<close>

lemma self_output_footer:
  assumes "in_footer s"
  shows "footer_dest (self_output s ws) = footer_dest s @ [print_text ws]"
    and "in_footer (self_output s ws)" and "class_in_module (self_output s ws) = class_in_module s"
    and "config (self_output s ws) = config s"
  using assms
  by (auto simp: self_output_def PUML_Generator_NS_output_def PUML_Generator_output_def
      split: gen_class.splits)

lemma footer_relations_closed:
  "in_footer s \<Longrightarrow>
     footer_dest (footer_relations s rs) = footer_dest s @ map (relation_line (class_in_module s)) rs
     \<and> in_footer (footer_relations s rs) \<and> config (footer_relations s rs) = config s"
proof (induction s rs rule: footer_relations.induct)
  case (1 s)
  then show ?case by simp
next
  case (2 s base derived rest)
  let ?t = "self_output s [qualified_name (class_in_module s) base, ''<|--'',
                           qualified_name (class_in_module s) derived]"
  note o = self_output_footer [OF "2.prems", of "[qualified_name (class_in_module s) base, ''<|--'',
                           qualified_name (class_in_module s) derived]"]
  have step: "footer_relations s ((base, derived) # rest) = footer_relations ?t rest"
    by (simp add: qualified_name_def Let_def)
  have line: "print_text [qualified_name (class_in_module s) base, ''<|--'',
                           qualified_name (class_in_module s) derived]
              = relation_line (class_in_module s) (base, derived)"
    by (simp add: print_text_def relation_line_def)
  from "2.IH" [OF refl refl, unfolded qualified_name_def [symmetric], OF o(2)]
  show ?case
    unfolding step using o line by simp
qed

lemma footer_closed:
  "footer_dest (PUML_Generator_footer s)
     = footer_dest s @ map (relation_line (class_in_module s)) (inherit_relations s)
         @ epilog_writes (config s)"
proof -
  let ?s1 = "s\<lparr>in_footer := True\<rparr>"
  let ?s2 = "footer_relations ?s1 (inherit_relations ?s1)"
  have s2: "footer_dest ?s2 = footer_dest s @ map (relation_line (class_in_module s)) (inherit_relations s)"
    "in_footer ?s2" "config ?s2 = config s"
    using footer_relations_closed [of ?s1 "inherit_relations ?s1"] by simp_all
  show ?thesis
    unfolding PUML_Generator_footer_def Let_def
    using s2 self_output_footer(1) [OF s2(2)]
    by (simp add: epilog_writes_def cfg_get_def print_text_def split: option.splits)
qed

lemma only_writes_refl: "only_writes s s"
  by (simp add: only_writes_def)

lemma only_writes_trans: "only_writes s t \<Longrightarrow> only_writes t u \<Longrightarrow> only_writes s u"
  by (auto simp: only_writes_def)

lemma self_output_only_writes: "only_writes s (self_output s ws)"
  by (auto simp: only_writes_def self_output_def PUML_Generator_NS_output_def
      PUML_Generator_output_def split: gen_class.splits)

lemma foldl_output_only_writes: "only_writes s (foldl (\<lambda>t m. self_output t (f m)) s ms)"
proof (induction ms arbitrary: s)
  case Nil
  then show ?case by (simp add: only_writes_refl)
next
  case (Cons m ms)
  show ?case
    using only_writes_trans [OF self_output_only_writes Cons.IH] by simp
qed

lemma classinfo_properties_only_writes:
  "classinfo_properties to_source py_eval s ms = Inr s' \<Longrightarrow> only_writes s s'"
proof (induction ms arbitrary: s)
  case Nil
  then show ?case by (simp add: only_writes_refl)
next
  case (Cons m ms)
  show ?case
    using Cons.prems
    by (auto simp: Let_def split: if_splits sum.splits bool.splits
        intro: Cons.IH only_writes_trans [OF self_output_only_writes Cons.IH])
qed

lemma classinfo_methods_only_writes:
  "classinfo_methods to_source visibility cname (s, h) ms = Inr (s', h') \<Longrightarrow> only_writes s s'"
proof (induction ms arbitrary: s h)
  case Nil
  then show ?case by (simp add: only_writes_refl)
next
  case (Cons m ms)
  show ?case
    using Cons.prems
    by (auto simp: Let_def split: if_splits sum.splits prod.splits
        intro: Cons.IH only_writes_trans [OF self_output_only_writes Cons.IH])
qed


lemma full_ns_concat: "full_ns s = concat (map (\<lambda>n. n @ ''.'') (namespaces s))"
proof -
  have "foldl (\<lambda>acc n. acc @ n @ ''.'') a ns = a @ concat (map (\<lambda>n. n @ ''.'') ns)" for a ns
    by (induction ns arbitrary: a) simp_all
  then show ?thesis by (simp add: full_ns_def)
qed

lemma print_classinfo_head_closed:
  assumes "classname classinfo \<noteq> []"
  shows "print_classinfo_head to_source s classinfo =
     Inr (self_output
            (s\<lparr>inherit_relations := inherit_relations s
                 @ recorded_relations (classname classinfo) (base_texts to_source (bases classinfo))\<rparr>)
            [expected_prefix to_source classinfo, classname classinfo, ''{''])"
  using assms
  by (cases "classname classinfo")
    (auto simp: print_classinfo_head_def classinfo_bases_closed expected_prefix_def)

lemma print_classinfo_records:
  assumes "PUML_Generator_print_classinfo to_source py_eval visibility (s, h) classinfo = Inr (s', h')"
  shows "class_in_module s' = class_in_module s"
    and "inherit_relations s' = inherit_relations s
           @ recorded_relations (classname classinfo) (base_texts to_source (bases classinfo))"
proof -
  have ne: "classname classinfo \<noteq> []"
    using assms
    by (auto simp: PUML_Generator_print_classinfo_def print_classinfo_head_def
        split: prod.splits list.splits)
  let ?s0 = "s\<lparr>inherit_relations := inherit_relations s
                 @ recorded_relations (classname classinfo) (base_texts to_source (bases classinfo))\<rparr>"
  let ?s1 = "self_output ?s0 [expected_prefix to_source classinfo, classname classinfo, ''{'']"
  let ?s2 = "foldl (\<lambda>t m. self_output t [TAB @ ''{static}'', visibility m @ m]) ?s1 (classvars classinfo)"
  let ?s3 = "foldl (\<lambda>t m. self_output t [TAB @ visibility m @ m]) ?s2 (members classinfo)"
  have hd: "print_classinfo_head to_source s classinfo = Inr ?s1"
    by (rule print_classinfo_head_closed [OF ne])
  from assms obtain s4 s5 where
    p4: "classinfo_properties to_source py_eval ?s3 (methods classinfo) = Inr s4"
    and p5: "classinfo_methods to_source visibility (classname classinfo) (s4, h) (methods classinfo) = Inr (s5, h')"
    and s': "s' = self_output s5 [''}\<newline>'']"
    by (auto simp: PUML_Generator_print_classinfo_def hd Let_def split: sum.splits)
  have w1: "only_writes ?s0 ?s1" by (rule self_output_only_writes)
  have w2: "only_writes ?s1 ?s2" by (rule foldl_output_only_writes)
  have w3: "only_writes ?s2 ?s3" by (rule foldl_output_only_writes)
  have w4: "only_writes ?s3 s4" using p4 by (rule classinfo_properties_only_writes)
  have w5: "only_writes s4 s5" using p5 by (rule classinfo_methods_only_writes)
  have w6: "only_writes s5 s'" unfolding s' by (rule self_output_only_writes)
  have "only_writes ?s0 s'"
    by (rule only_writes_trans [OF w1 only_writes_trans [OF w2 only_writes_trans
          [OF w3 only_writes_trans [OF w4 only_writes_trans [OF w5 w6]]]]])
  then show "class_in_module s' = class_in_module s"
    and "inherit_relations s' = inherit_relations s
           @ recorded_relations (classname classinfo) (base_texts to_source (bases classinfo))"
    by (simp_all add: only_writes_def)
qed

lemma sample_namespaces:
  "file_namespaces ''a/b/c.py'' = [''a'', ''b'', ''c'']"
  "file_namespaces ''a/b/d.py'' = [''a'', ''b'', ''d'']"
  by (simp_all add: file_namespaces_def splitext_def rfind_def Let_def)

lemma close_namespaces_keeps:
  assumes "\<not> in_footer s"
  shows "\<exists>s'. close_namespaces s = Inr s' \<and> footer_dest s' = footer_dest s
       \<and> class_in_module s' = class_in_module s
       \<and> inherit_relations s' = inherit_relations s \<and> config s' = config s"
  using close_namespaces_exact [OF assms] by simp

section \<open>The sample store\<close>

lemma sample_method_store:
  "allocated sample_store (sample_method decs)"
  "read_arguments sample_store (fd_args (sample_method decs)) = sample_args"
proof -
  have a: "allocated (snd (alloc_arguments empty_store sample_args)) (sample_method decs)"
    by (rule alloc_arguments_allocated) (simp add: sample_method_def)
  have r: "read_arguments (snd (alloc_arguments empty_store sample_args)) (fd_args (sample_method decs))
      = sample_args"
    using alloc_arguments_read [of empty_store sample_args] by (simp add: sample_method_def)
  from alloc_arguments_keeps [OF a, of no_args] r
  show "allocated sample_store (sample_method decs)"
    and "read_arguments sample_store (fd_args (sample_method decs)) = sample_args"
    by (simp_all add: sample_store_def)
qed

lemma bare_method_store:
  "allocated sample_store bare_method"
  "read_arguments sample_store (fd_args bare_method) = no_args"
proof -
  show "allocated sample_store bare_method"
    unfolding sample_store_def by (rule alloc_arguments_allocated) (simp add: bare_method_def)
  show "read_arguments sample_store (fd_args bare_method) = no_args"
    using alloc_arguments_read [of "snd (alloc_arguments empty_store sample_args)" no_args]
    by (simp add: sample_store_def bare_method_def)
qed

lemma omit_config_opts:
  "opt_omit_self omit_config = Inr (PBool True)"
  "opt_omit_defaults omit_config ''methods'' = Inr (PBool True)"
  "opt_write_arglist omit_config ''methods'' = Inr (PBool True)"
  by (simp_all add: omit_config_def config_of_def opt_omit_self_def opt_omit_defaults_def
      opt_write_arglist_def cfg_getboolean_def lower_def lower_chr_def)

lemma static_method_store:
  "allocated static_store static_method"
  "read_arguments static_store (fd_args static_method) = static_args"
proof -
  show "allocated static_store static_method"
    unfolding static_store_def by (rule alloc_arguments_allocated) (simp add: static_method_def)
  show "read_arguments static_store (fd_args static_method) = static_args"
    using alloc_arguments_read [of empty_store static_args]
    by (simp add: static_store_def static_method_def)
qed

lemma no_arglist_config_opts:
  "opt_omit_self no_arglist_config = Inr (PBool True)"
  "opt_write_arglist no_arglist_config ''methods'' = Inr (PBool False)"
  by (simp_all add: no_arglist_config_def config_of_def opt_omit_self_def
      opt_write_arglist_def cfg_getboolean_def lower_def lower_chr_def)

lemma is_static_iff:
  "truthy (is_static_method fdef) \<longleftrightarrow> Name ''staticmethod'' \<in> set (fd_decorator_list fdef)"
  by (simp add: is_static_method_def static_decorator_iff)

section \<open>The value of an argument list\<close>

lemma arglist_on_value_decorators:
  assumes "fd_decorator_list f2 = fd_decorator_list fdef"
  shows "arglist_on_value to_source c v f2 ismethod = arglist_on_value to_source c v fdef ismethod"
proof -
  have "omit_self_cond c f2 ismethod = omit_self_cond c fdef ismethod"
    unfolding omit_self_cond_def is_static_method_def assms by (rule refl)
  then show ?thesis
    unfolding arglist_on_value_def by (simp only:)
qed

lemma arglist_on_value_early:
  "opt_write_arglist c (if ismethod then ''methods'' else ''module'') = Inl e \<Longrightarrow>
     arglist_on_value to_source c v fdef ismethod = Inl e"
  "opt_write_arglist c (if ismethod then ''methods'' else ''module'') = Inr w \<Longrightarrow> \<not> truthy w \<Longrightarrow>
     arglist_on_value to_source c v fdef ismethod = Inr []"
  "opt_write_arglist c (if ismethod then ''methods'' else ''module'') = Inr w \<Longrightarrow> truthy w \<Longrightarrow>
     omit_self_cond c fdef ismethod = Inl e \<Longrightarrow>
     arglist_on_value to_source c v fdef ismethod = Inl e"
  by (simp_all add: arglist_on_value_def Let_def)

lemma arglist_on_value_late:
  assumes "opt_write_arglist c (if ismethod then ''methods'' else ''module'') = Inr w" and "truthy w"
    and "omit_self_cond c fdef ismethod = Inr omit"
  shows "arglist_on_value to_source c v fdef ismethod =
     (case (if omit then
              (case args v of
                 [] \<Rightarrow> Inl IndexError
               | self_arg # rest \<Rightarrow>
                   (case node_arg self_arg of Inl e \<Rightarrow> Inl e | Inr nm \<Rightarrow> Inr (v\<lparr>args := rest\<rparr>)))
            else Inr v) of
        Inl e \<Rightarrow> Inl e
      | Inr v1 \<Rightarrow>
          (case opt_omit_defaults c (if ismethod then ''methods'' else ''module'') of
             Inl e \<Rightarrow> Inl e
           | Inr od \<Rightarrow>
               Inr (rstrip (to_source (ArgumentsAst
                      (if truthy od then v1\<lparr>kw_defaults := [], defaults := []\<rparr> else v1))))))"
  using assms by (simp add: arglist_on_value_def Let_def)

lemma arglist_on_value_cleared:
  assumes od: "opt_omit_defaults c (if ismethod then ''methods'' else ''module'') = Inr d"
    and td: "truthy d"
  shows "arglist_on_value to_source c (v\<lparr>kw_defaults := kds, defaults := ds\<rparr>) fdef ismethod
         = arglist_on_value to_source c (v\<lparr>kw_defaults := [], defaults := []\<rparr>) fdef ismethod"
proof (cases "opt_write_arglist c (if ismethod then ''methods'' else ''module'')")
  case (Inl e)
  then show ?thesis by (simp add: arglist_on_value_early(1))
next
  case w: (Inr w)
  show ?thesis
  proof (cases "truthy w")
    case False
    then show ?thesis using w by (simp add: arglist_on_value_early(2))
  next
    case True
    show ?thesis
    proof (cases "omit_self_cond c fdef ismethod")
      case (Inl e)
      then show ?thesis using w True by (simp add: arglist_on_value_early(3))
    next
      case (Inr omit)
      show ?thesis
        unfolding arglist_on_value_late [OF w True Inr]
        using od td by (cases ismethod; cases omit; cases "args v") (auto split: sum.splits)
    qed
  qed
qed

lemma arglist_on_value_no_defaults:
  assumes od: "opt_omit_defaults c (if ismethod then ''methods'' else ''module'') = Inr d"
    and td: "truthy d"
    and r: "arglist_on_value to_source c v fdef ismethod = Inr s"
  shows "s = [] \<or> (\<exists>u. s = rstrip (to_source (ArgumentsAst u)) \<and> defaults u = [] \<and> kw_defaults u = [])"
proof (cases "opt_write_arglist c (if ismethod then ''methods'' else ''module'')")
  case (Inl e)
  then show ?thesis using r by (simp add: arglist_on_value_early(1))
next
  case w: (Inr w)
  show ?thesis
  proof (cases "truthy w")
    case False
    then show ?thesis using w r by (simp add: arglist_on_value_early(2))
  next
    case True
    show ?thesis
    proof (cases "omit_self_cond c fdef ismethod")
      case (Inl e)
      then show ?thesis using w True r by (simp add: arglist_on_value_early(3))
    next
      case (Inr omit)
      from r [unfolded arglist_on_value_late [OF w True Inr]] od td
      obtain v1 where "s = rstrip (to_source (ArgumentsAst (v1\<lparr>kw_defaults := [], defaults := []\<rparr>)))"
        by (cases ismethod) (auto split: sum.splits)
      then show ?thesis
        by (intro disjI2 exI [of _ "v1\<lparr>kw_defaults := [], defaults := []\<rparr>"]) simp
    qed
  qed
qed

section \<open>Properties of the option accessors\<close>

text \<open>
  C8 (as the code has it): with no configuration every option accessor returns its
  default: \<^verbatim>\<open>opt_globals\<close>, \<^verbatim>\<open>opt_omit_self\<close> and \<^verbatim>\<open>opt_omit_defaults\<close> return a value
  that is false in a boolean context, \<^verbatim>\<open>opt_write_arglist\<close> returns \<^verbatim>\<open>True\<close>,
  \<^verbatim>\<open>opt_builtin_types\<close> returns the empty list, and \<^verbatim>\<open>opt_prolog\<close> and \<^verbatim>\<open>opt_epilog\<close>
  return a false value that is not the empty string.
\<close>

theorem opt_defaults_no_config:
  "(\<exists>g. opt_globals None = Inr g \<and> \<not> truthy g)
   \<and> opt_write_arglist None section = Inr (PBool True)
   \<and> (\<exists>d. opt_omit_defaults None section = Inr d \<and> \<not> truthy d)
   \<and> (\<exists>v. opt_omit_self None = Inr v \<and> \<not> truthy v)
   \<and> opt_builtin_types py_eval None section = Inr (PList [])
   \<and> \<not> truthy (opt_prolog None) \<and> opt_prolog None \<noteq> PStr ''''
   \<and> \<not> truthy (opt_epilog None) \<and> opt_epilog None \<noteq> PStr ''''"
  by (simp add: opt_globals_def opt_write_arglist_def opt_omit_defaults_def
      opt_omit_self_def opt_builtin_types_def opt_prolog_def opt_epilog_def)

text \<open>
  C8 (as stated) fails: with no configuration \<^verbatim>\<open>opt_prolog\<close> and \<^verbatim>\<open>opt_epilog\<close> do not
  return the empty string.
\<close>

theorem opt_prolog_no_config_not_empty_string:
  "opt_prolog None \<noteq> PStr '''' \<and> opt_epilog None \<noteq> PStr ''''"
  by (simp add: opt_prolog_def opt_epilog_def)

section \<open>Properties of the class renderer\<close>

text \<open>
  C1 (as the code has it): for a class with a non-empty name, \<^verbatim>\<open>print_classinfo\<close> opens
  the block with the line \<^verbatim>\<open>prefix name {\<close>. The prefix is \<^verbatim>\<open>interface\<close> whenever the
  first character of the name is \<^verbatim>\<open>I\<close>, whatever the bases are. Otherwise it is \<^verbatim>\<open>class\<close>
  when no base renders to \<^verbatim>\<open>ABC\<close> or \<^verbatim>\<open>Enum\<close> (so also for no bases, or only
  \<^verbatim>\<open>object\<close>), and else the last base that renders to \<^verbatim>\<open>ABC\<close> or \<^verbatim>\<open>Enum\<close> decides:
  \<^verbatim>\<open>abstract class\<close> for \<^verbatim>\<open>ABC\<close>, \<^verbatim>\<open>enum\<close> for \<^verbatim>\<open>Enum\<close>.
\<close>

theorem print_classinfo_prefix:
  assumes "classname classinfo \<noteq> []"
  shows "print_classinfo_head to_source s classinfo =
           Inr (self_output
                  (s\<lparr>inherit_relations := inherit_relations s
                       @ recorded_relations (classname classinfo)
                           (base_texts to_source (bases classinfo))\<rparr>)
                  [expected_prefix to_source classinfo, classname classinfo, ''{''])
       \<and> print_text [expected_prefix to_source classinfo, classname classinfo, ''{'']
           = expected_prefix to_source classinfo @ '' '' @ classname classinfo @ '' {\<newline>''
       \<and> expected_prefix to_source classinfo =
           (if hd (classname classinfo) = CHR ''I'' then ''interface''
            else if filter (\<lambda>e. e = ''ABC'' \<or> e = ''Enum'') (base_texts to_source (bases classinfo)) = []
              then ''class''
            else if last (filter (\<lambda>e. e = ''ABC'' \<or> e = ''Enum'')
                            (base_texts to_source (bases classinfo))) = ''ABC''
              then ''abstract class''
            else ''enum'')"
proof -
  have "take 1 (classname classinfo) = ''I'' \<longleftrightarrow> hd (classname classinfo) = CHR ''I''"
    using assms by (cases "classname classinfo") simp_all
  then show ?thesis
    using print_classinfo_head_closed [OF assms, of to_source s]
    by (simp add: print_text_def expected_prefix_def marker_prefix_def split: list.splits)
qed


text \<open>
  C1 at two classes: the last marker among the bases decides, and the name that starts
  with \<^verbatim>\<open>I\<close> overrides it.
\<close>

theorem print_classinfo_prefix_witness:
  "map_sum id dest (print_classinfo_head sample_to_source (PUML_Generator_init None)
       (sample_class ''Shape'' [Name ''object'', Name ''Enum'', Name ''ABC'']))
     = Inr [''abstract class Shape {\<newline>'']
   \<and> map_sum id dest (print_classinfo_head sample_to_source (PUML_Generator_init None)
       (sample_class ''IShape'' [Name ''ABC'']))
     = Inr [''interface IShape {\<newline>'']"
  using print_classinfo_prefix [of "sample_class ''Shape'' [Name ''object'', Name ''Enum'', Name ''ABC'']"
      sample_to_source "PUML_Generator_init None"]
    print_classinfo_prefix [of "sample_class ''IShape'' [Name ''ABC'']"
      sample_to_source "PUML_Generator_init None"]
  by (simp add: sample_class_def PUML_Generator_init_def self_output_def PUML_Generator_output_def
      print_text_def base_texts_def rstrip_def is_space_def recorded_relations_def)


text \<open>
  C1 (as stated) fails: a class with the bases \<^verbatim>\<open>ABC\<close> and \<^verbatim>\<open>Enum\<close>, in this order, has a
  base that renders to \<^verbatim>\<open>ABC\<close> and is opened with the prefix \<^verbatim>\<open>enum\<close>.
\<close>

theorem print_classinfo_abc_then_enum:
  "rstrip (sample_to_source (ExprAst (Name ''ABC''))) = ''ABC''
   \<and> Name ''ABC'' \<in> set (bases (sample_class ''Color'' [Name ''ABC'', Name ''Enum'']))
   \<and> map_sum id dest (print_classinfo_head sample_to_source (PUML_Generator_init None)
         (sample_class ''Color'' [Name ''ABC'', Name ''Enum'']))
       = Inr [''enum Color {\<newline>'']"
  by (simp add: sample_class_def PUML_Generator_init_def print_classinfo_head_def self_output_def
      PUML_Generator_output_def print_text_def rstrip_def is_space_def Let_def)


section \<open>Properties of the namespace tracker\<close>

text \<open>
  C3: for two consecutive calls of \<^verbatim>\<open>start_file\<close> of the namespace tracker, with \<open>n\<close> the
  length of the longest common prefix of the namespaces of the two files, the second
  call writes exactly (previous depth - \<open>n\<close>) closing markers and then the opening markers
  of the namespaces of the new file after the first \<open>n\<close>, so none for a namespace of the
  shared prefix; afterwards the stack of namespaces is the one of the new file.
\<close>

theorem start_file_consecutive:
  assumes rp1: "relpath src1 (root s) = Inr p1"
    and rp2: "relpath src2 (root s) = Inr p2"
    and nf: "\<not> in_footer s"
  shows "\<exists>s1 s2 ws.
      PUML_Generator_NS_start_file relpath s src1 = Inr s1
    \<and> PUML_Generator_NS_start_file relpath s1 src2 = Inr s2
    \<and> namespaces s1 = file_namespaces p1
    \<and> namespaces s2 = file_namespaces p2
    \<and> dest s2 = dest s1 @ ws
    \<and> (let n = length (longest_common_prefix (file_namespaces p1) (file_namespaces p2))
       in filter (\<lambda>w. is_open w \<or> is_close w) ws
            = replicate (depth s1 - n) close_marker @ map open_marker (drop n (file_namespaces p2))
        \<and> length (filter is_close ws) = depth s1 - n
        \<and> length (filter is_open ws) = length (file_namespaces p2) - n)"
proof -
  let ?new1 = "file_namespaces p1" and ?new2 = "file_namespaces p2"
  let ?n = "length (longest_common_prefix ?new1 ?new2)"
  obtain s1 where s1: "PUML_Generator_NS_start_file relpath s src1 = Inr s1"
    and ns1: "namespaces s1 = ?new1" and nf1: "\<not> in_footer s1" and root1: "root s1 = root s"
    using start_file_exact [of relpath src1 s p1, OF rp1 nf] nf by simp
  let ?ws = "pop_writes (length ?new1) (length ?new1 - ?n) @ push_writes ?n (drop ?n ?new2)"
  from rp2 root1 have rp2': "relpath src2 (root s1) = Inr p2" by simp
  have s2: "PUML_Generator_NS_start_file relpath s1 src2 =
      Inr (s1\<lparr>sourcename := Some src2, namespaces := ?new2, dest := dest s1 @ ?ws\<rparr>)"
    using start_file_exact [of relpath src2 s1 p2, OF rp2' nf1] by (simp add: ns1)
  show ?thesis
    using s1 s2 ns1
    by (intro exI [of _ s1] exI [of _ "s1\<lparr>sourcename := Some src2, namespaces := ?new2, dest := dest s1 @ ?ws\<rparr>"]
        exI [of _ ?ws])
      (simp add: Let_def depth_def filter_marker_pop_writes filter_marker_push_writes
        filter_pop_writes filter_push_writes)
qed


text \<open>C3 at the files \<^verbatim>\<open>a/b/c.py\<close> and \<^verbatim>\<open>a/b/d.py\<close>: one closing marker, for \<^verbatim>\<open>c\<close>, and one opening marker, for \<^verbatim>\<open>d\<close>.\<close>

theorem start_file_consecutive_witness:
  "\<exists>s1 s2 ws.
      PUML_Generator_NS_start_file sample_relpath (PUML_Generator_NS_init ''.'' None) ''a/b/c.py'' = Inr s1
    \<and> PUML_Generator_NS_start_file sample_relpath s1 ''a/b/d.py'' = Inr s2
    \<and> namespaces s1 = [''a'', ''b'', ''c'']
    \<and> namespaces s2 = [''a'', ''b'', ''d'']
    \<and> dest s2 = dest s1 @ ws
    \<and> filter (\<lambda>w. is_open w \<or> is_close w) ws = [''}\<newline>'', ''namespace d {\<newline>'']"
proof -
  from start_file_consecutive [of sample_relpath "''a/b/c.py''" "PUML_Generator_NS_init ''.'' None"
        "''a/b/c.py''" "''a/b/d.py''" "''a/b/d.py''"]
  obtain s1 s2 ws where
    a: "PUML_Generator_NS_start_file sample_relpath (PUML_Generator_NS_init ''.'' None) ''a/b/c.py'' = Inr s1"
    and b: "PUML_Generator_NS_start_file sample_relpath s1 ''a/b/d.py'' = Inr s2"
    and c: "namespaces s1 = [''a'', ''b'', ''c'']" "namespaces s2 = [''a'', ''b'', ''d'']"
      "dest s2 = dest s1 @ ws"
    and d: "filter (\<lambda>w. is_open w \<or> is_close w) ws
         = replicate (depth s1 - 2) close_marker @ map open_marker [''d'']"
    by (auto simp: sample_relpath_def sample_namespaces PUML_Generator_NS_init_def
        PUML_Generator_init_def)
  from d c(1) have "filter (\<lambda>w. is_open w \<or> is_close w) ws = [''}\<newline>'', ''namespace d {\<newline>'']"
    by (simp add: depth_def close_marker_def open_marker_def print_text_def)
  with a b c show ?thesis by blast
qed

text \<open>
  C4: \<^verbatim>\<open>push_ns\<close> writes exactly one opening marker for the namespace it pushes and
  \<^verbatim>\<open>pop_ns\<close> exactly one closing marker for each namespace it pops; and a run of the
  tracker (any sequence of \<^verbatim>\<open>start_file\<close> calls, then \<^verbatim>\<open>footer\<close>) that starts with no open
  namespace ends with none and has written as many opening as closing markers.
\<close>

theorem namespace_markers_balanced:
  assumes rp: "\<forall>src \<in> set srcs. \<exists>p. relpath src (root s) = Inr p"
    and init: "namespaces s = []" and nf: "\<not> in_footer s"
    and nft: "\<not> in_footer t" and k: "k \<le> depth t"
  shows "push_ns t nm = t\<lparr>dest := dest t @ indent_writes (depth t) @ [open_marker nm],
                          namespaces := namespaces t @ [nm]\<rparr>
       \<and> filter (\<lambda>w. is_open w \<or> is_close w) (indent_writes (depth t) @ [open_marker nm])
           = [open_marker nm]
       \<and> pop_ns t k = Inr (t\<lparr>namespaces := take (depth t - k) (namespaces t),
                              dest := dest t @ pop_writes (depth t) k\<rparr>)
       \<and> filter (\<lambda>w. is_open w \<or> is_close w) (pop_writes (depth t) k) = replicate k close_marker
       \<and> (\<exists>s' ws. tracker_run relpath s srcs = Inr s' \<and> namespaces s' = []
             \<and> dest s' = dest s @ ws
             \<and> length (filter is_open ws) = length (filter is_close ws))"
proof -
  have push: "push_ns t nm = t\<lparr>dest := dest t @ indent_writes (depth t) @ [open_marker nm],
                          namespaces := namespaces t @ [nm]\<rparr>"
    using push_ns_exact [OF nft, of nm] by (simp add: depth_def)
  have pushm: "filter (\<lambda>w. is_open w \<or> is_close w) (indent_writes (depth t) @ [open_marker nm])
           = [open_marker nm]"
    using filter_marker_push_writes [of "depth t" "[nm]"] by simp
  have pop: "pop_ns t k = Inr (t\<lparr>namespaces := take (depth t - k) (namespaces t),
                              dest := dest t @ pop_writes (depth t) k\<rparr>)"
    using pop_ns_exact [OF nft, of k] k by (simp add: depth_def)
  from start_files_balance [of srcs relpath s, OF rp nf] obtain s1 ws1 where
    run: "start_files relpath s srcs = Inr s1" and d1: "dest s1 = dest s @ ws1"
    and nf1: "\<not> in_footer s1"
    and bal: "length (filter is_open ws1) + length (namespaces s)
          = length (filter is_close ws1) + length (namespaces s1)"
    by blast
  let ?ws2 = "if namespaces s1 = [] then [] else pop_writes (depth s1) (depth s1)"
  let ?s2 = "if namespaces s1 = [] then s1
             else s1\<lparr>namespaces := [], dest := dest s1 @ pop_writes (depth s1) (depth s1)\<rparr>"
  have cl: "close_namespaces s1 = Inr ?s2"
    by (rule close_namespaces_exact [OF nf1])
  have ns2: "namespaces ?s2 = []" by simp
  have d2: "dest ?s2 = dest s1 @ ?ws2" by simp
  have foot: "PUML_Generator_NS_footer s1 = Inr (PUML_Generator_footer ?s2)"
    by (simp only: PUML_Generator_NS_footer_def cl sum.case)
  note ff = footer_frame [OF ns2]
  have c2: "length (filter is_close ?ws2) = length (namespaces s1)" "filter is_open ?ws2 = []"
    by (simp_all add: filter_pop_writes depth_def)
  have "tracker_run relpath s srcs = Inr (PUML_Generator_footer ?s2)"
    by (simp only: tracker_run_def run foot sum.case)
  moreover have "namespaces (PUML_Generator_footer ?s2) = []" using ff by simp
  moreover have "dest (PUML_Generator_footer ?s2) = dest s @ (ws1 @ ?ws2)"
    using ff d1 d2 by (simp only: append_assoc)
  moreover have "length (filter is_open (ws1 @ ?ws2)) = length (filter is_close (ws1 @ ?ws2))"
    using bal c2 init by simp
  ultimately have "\<exists>s' ws. tracker_run relpath s srcs = Inr s' \<and> namespaces s' = []
             \<and> dest s' = dest s @ ws
             \<and> length (filter is_open ws) = length (filter is_close ws)"
    by blast
  with push pushm pop show ?thesis
    by (simp only: filter_marker_pop_writes simp_thms)
qed


text \<open>C4 at a run over three files.\<close>

theorem namespace_markers_balanced_witness:
  "\<exists>s' ws. tracker_run sample_relpath (PUML_Generator_NS_init ''.'' None)
        [''a/b/c.py'', ''a/b/d.py'', ''x.py''] = Inr s'
     \<and> namespaces s' = [] \<and> dest s' = ws
     \<and> length (filter is_open ws) = length (filter is_close ws)"
  using namespace_markers_balanced [of "[''a/b/c.py'', ''a/b/d.py'', ''x.py'']" sample_relpath
      "PUML_Generator_NS_init ''.'' None"
      "(PUML_Generator_NS_init ''.'' None)\<lparr>namespaces := [''a'', ''b'']\<rparr>" 2 "''c''"]
  by (simp add: sample_relpath_def PUML_Generator_NS_init_def PUML_Generator_init_def depth_def)

section \<open>Properties of the footer\<close>

text \<open>
  C2: \<^verbatim>\<open>footer\<close> (of the base class, and of the namespace tracker outside the footer
  mode) appends to the footer stream one line \<^verbatim>\<open>base <|-- derived\<close> for every recorded
  inheritance relation, in order, then the epilog. Each endpoint carries the prefix that
  the dictionary \<^verbatim>\<open>class_in_module\<close> holds for its name when \<^verbatim>\<open>footer\<close> runs and is
  left as it is when its name is not a key. \<^verbatim>\<open>PUML_Generator_NS.print_classinfo\<close> stores
  the dotted path of the open namespaces for the class and appends the relations of its
  bases, so a prefix stored after a relation was recorded applies to it.
\<close>

theorem footer_qualifies_relations:
  assumes nf: "\<not> in_footer s"
    and pc: "PUML_Generator_NS_print_classinfo to_source py_eval visibility (t, h) classinfo
               = Inr (t', h')"
  shows "footer_dest (PUML_Generator_footer s)
           = footer_dest s @ map (relation_line (class_in_module s)) (inherit_relations s)
               @ epilog_writes (config s)
       \<and> (\<exists>s'. PUML_Generator_NS_footer s = Inr s'
             \<and> footer_dest s'
                 = footer_dest s @ map (relation_line (class_in_module s)) (inherit_relations s)
                     @ epilog_writes (config s))
       \<and> relation_line m (b, d)
           = (case m b of None \<Rightarrow> b | Some ns \<Rightarrow> ns @ b) @ '' <|-- ''
               @ (case m d of None \<Rightarrow> d | Some ns \<Rightarrow> ns @ d) @ ''\<newline>''
       \<and> class_in_module t'
           = (class_in_module t)(classname classinfo \<mapsto> concat (map (\<lambda>n. n @ ''.'') (namespaces t)))
       \<and> inherit_relations t'
           = inherit_relations t
               @ recorded_relations (classname classinfo) (base_texts to_source (bases classinfo))"
proof -
  from close_namespaces_keeps [OF nf] obtain s2 where
    cl: "close_namespaces s = Inr s2" and k: "footer_dest s2 = footer_dest s"
    "class_in_module s2 = class_in_module s" "inherit_relations s2 = inherit_relations s"
    "config s2 = config s"
    by blast
  have ns: "PUML_Generator_NS_footer s = Inr (PUML_Generator_footer s2)"
    by (simp only: PUML_Generator_NS_footer_def cl sum.case)
  have f2: "footer_dest (PUML_Generator_footer s2)
      = footer_dest s @ map (relation_line (class_in_module s)) (inherit_relations s)
          @ epilog_writes (config s)"
    using footer_closed [of s2] k by simp
  let ?t0 = "t\<lparr>class_in_module := (class_in_module t)(classname classinfo \<mapsto> full_ns t)\<rparr>"
  from pc have pc': "PUML_Generator_print_classinfo to_source py_eval visibility (?t0, h) classinfo
               = Inr (t', h')"
    by (simp add: PUML_Generator_NS_print_classinfo_def)
  note r = print_classinfo_records [OF pc']
  have rl: "relation_line m (b, d)
           = (case m b of None \<Rightarrow> b | Some ns \<Rightarrow> ns @ b) @ '' <|-- ''
               @ (case m d of None \<Rightarrow> d | Some ns \<Rightarrow> ns @ d) @ ''\<newline>''"
    by (simp add: relation_line_def qualified_name_def)
  show ?thesis
    using footer_closed [of s] ns f2 r rl by (simp add: full_ns_concat)
qed


text \<open>
  C2 at a footer with a qualified and an unknown base, and at a class whose base is not
  yet in the dictionary when the relation is recorded.
\<close>

theorem footer_qualifies_relations_witness:
  "(\<exists>s'. PUML_Generator_NS_footer sample_footer_state = Inr s'
      \<and> footer_dest s' = [''pkg.shapes.Shape <|-- pkg.shapes.Circle\<newline>'',
                          ''Base <|-- pkg.shapes.Circle\<newline>''])
   \<and> (\<exists>t' h'. PUML_Generator_NS_print_classinfo sample_to_source (\<lambda>txt. Inr (PList [])) (\<lambda>nm. ''+'')
          ((PUML_Generator_NS_init ''.'' None)\<lparr>namespaces := [''pkg'', ''shapes'']\<rparr>, empty_store)
          (sample_class ''Circle'' [Name ''Shape'']) = Inr (t', h')
      \<and> class_in_module t' ''Circle'' = Some ''pkg.shapes.''
      \<and> class_in_module t' ''Shape'' = None
      \<and> inherit_relations t' = [(''Shape'', ''Circle'')])"
proof -
  let ?t = "(PUML_Generator_NS_init ''.'' None)\<lparr>namespaces := [''pkg'', ''shapes'']\<rparr>"
  obtain t' h' where pc: "PUML_Generator_NS_print_classinfo sample_to_source (\<lambda>txt. Inr (PList []))
      (\<lambda>nm. ''+'') (?t, empty_store) (sample_class ''Circle'' [Name ''Shape'']) = Inr (t', h')"
    by (simp add: PUML_Generator_NS_print_classinfo_def PUML_Generator_print_classinfo_def
        print_classinfo_head_closed sample_class_def)
  have nf: "\<not> in_footer sample_footer_state"
    by (simp add: sample_footer_state_def PUML_Generator_NS_init_def PUML_Generator_init_def)
  note th = footer_qualifies_relations [OF nf pc]
  have a: "\<exists>s'. PUML_Generator_NS_footer sample_footer_state = Inr s'
      \<and> footer_dest s' = [''pkg.shapes.Shape <|-- pkg.shapes.Circle\<newline>'',
                          ''Base <|-- pkg.shapes.Circle\<newline>'']"
    using th
    by (simp add: sample_footer_state_def PUML_Generator_NS_init_def PUML_Generator_init_def
        relation_line_def qualified_name_def epilog_writes_def)
  have b: "class_in_module t' ''Circle'' = Some ''pkg.shapes.''
      \<and> class_in_module t' ''Shape'' = None
      \<and> inherit_relations t' = [(''Shape'', ''Circle'')]"
    using th
    by (simp add: PUML_Generator_NS_init_def PUML_Generator_init_def sample_class_def
        recorded_relations_def base_texts_def rstrip_def is_space_def)
  from a b pc show ?thesis by blast
qed

section \<open>Properties of the argument lists\<close>

text \<open>
  C7: \<^verbatim>\<open>arglist\<close> leaves the descriptor unchanged, for every configuration and whether it
  returns or raises: after the call every list and every \<^verbatim>\<open>ast.arguments\<close> object that
  was allocated before the call holds what it held, so the arguments of a function in the
  store (parameters and defaults) read the same before and after.
\<close>

theorem arglist_leaves_descriptor:
  assumes "in_store h fdef"
  shows "read_arguments (snd (arglist to_source c h fdef ismethod)) (fd_args fdef)
           = read_arguments h (fd_args fdef)
       \<and> (\<forall>b<nxt h. listobjs (snd (arglist to_source c h fdef ismethod)) b = listobjs h b
                    \<and> argobjs (snd (arglist to_source c h fdef ismethod)) b = argobjs h b)"
  using assms arglist_frame [of h to_source c fdef ismethod]
  by (simp add: in_store_def read_arguments_def Let_def)


text \<open>
  C7 at a call that drops \<^verbatim>\<open>self\<close> and clears the defaults in its copy: the descriptor
  still has its three parameters and its default.
\<close>

theorem arglist_leaves_descriptor_witness:
  "fst (arglist sample_to_source omit_config sample_store (sample_method []) True) = Inr ''x, y''
   \<and> read_arguments (snd (arglist sample_to_source omit_config sample_store (sample_method []) True))
         (fd_args (sample_method []))
       = sample_args
   \<and> args sample_args = [Arg ''self'' None, Arg ''x'' None, Arg ''y'' None]
   \<and> defaults sample_args = [Expr (OtherExpr ''1'')]"
proof -
  have "fst (arglist sample_to_source omit_config sample_store (sample_method []) True)
      = arglist_on_value sample_to_source omit_config sample_args (sample_method []) True"
    by (simp only: arglist_value [OF sample_method_store(1)] sample_method_store(2))
  also have "\<dots> = Inr ''x, y''"
    by (simp add: arglist_on_value_def omit_config_opts omit_self_cond_def is_static_method_def
        sample_method_def sample_args_def params_text_def rstrip_def is_space_def)
  finally have v: "fst (arglist sample_to_source omit_config sample_store (sample_method []) True)
      = Inr ''x, y''" .
  have "in_store sample_store (sample_method [])"
    using sample_method_store(1) [of "[]"] by (simp add: allocated_def Let_def)
  from arglist_leaves_descriptor [OF this, of sample_to_source omit_config True]
  have "read_arguments (snd (arglist sample_to_source omit_config sample_store (sample_method []) True))
         (fd_args (sample_method [])) = sample_args"
    by (simp add: sample_method_store(2))
  with v show ?thesis by (simp add: sample_args_def)
qed

text \<open>
  C5 (as the code has it): for a method with a decorator that is the name
  \<^verbatim>\<open>staticmethod\<close>, with omit-self enabled and the two other options of the section
  readable, \<^verbatim>\<open>arglist\<close> never drops a parameter: when the argument lists of methods are
  written, the result is the rendering of the arguments of the descriptor with every
  parameter, only the defaults being cleared when omit-defaults is enabled; when they are
  not written (write-arg-list disabled), the result is the empty string.
\<close>

theorem arglist_static_keeps_parameters:
  assumes al: "allocated h fdef"
    and st: "Name ''staticmethod'' \<in> set (fd_decorator_list fdef)"
    and os: "opt_omit_self c = Inr v" and tv: "truthy v"
    and wa: "opt_write_arglist c ''methods'' = Inr w"
    and od: "opt_omit_defaults c ''methods'' = Inr d"
  shows "fst (arglist to_source c h fdef True) =
           (if truthy w then
              Inr (rstrip (to_source (ArgumentsAst
                     (if truthy d
                      then (read_arguments h (fd_args fdef))\<lparr>kw_defaults := [], defaults := []\<rparr>
                      else read_arguments h (fd_args fdef)))))
            else Inr [])"
  using st os tv wa od
  by (simp add: arglist_value [OF al] arglist_on_value_def omit_self_cond_def is_static_iff)


text \<open>C5 at the static method \<^verbatim>\<open>make(x, y=2)\<close>, with omit-self and omit-defaults enabled.\<close>

theorem arglist_static_keeps_parameters_witness:
  "fst (arglist sample_to_source omit_config static_store static_method True) = Inr ''x, y''
   \<and> args static_args = [Arg ''x'' None, Arg ''y'' None]"
proof -
  have st: "Name ''staticmethod'' \<in> set (fd_decorator_list static_method)"
    by (simp add: static_method_def)
  have t: "truthy (PBool True)" by simp
  from arglist_static_keeps_parameters [OF static_method_store(1) st omit_config_opts(1) t
      omit_config_opts(3) omit_config_opts(2), of sample_to_source]
  show ?thesis
    by (simp add: static_method_store(2) static_args_def params_text_def rstrip_def is_space_def)
qed


text \<open>
  C5 (as stated) fails: with omit-self enabled and the argument lists of methods
  disabled, the result for the static method \<^verbatim>\<open>make(x, y=2)\<close> is the empty string, which
  contains none of its parameters.
\<close>

theorem arglist_static_suppressed:
  "Name ''staticmethod'' \<in> set (fd_decorator_list static_method)
   \<and> opt_omit_self no_arglist_config = Inr (PBool True)
   \<and> args (read_arguments static_store (fd_args static_method)) = [Arg ''x'' None, Arg ''y'' None]
   \<and> fst (arglist sample_to_source no_arglist_config static_store static_method True) = Inr ''''"
proof -
  have "fst (arglist sample_to_source no_arglist_config static_store static_method True)
      = arglist_on_value sample_to_source no_arglist_config static_args static_method True"
    by (simp only: arglist_value [OF static_method_store(1)] static_method_store(2))
  also have "\<dots> = Inr ''''"
    by (simp add: arglist_on_value_def no_arglist_config_opts)
  finally show ?thesis
    by (simp add: static_method_store(2) no_arglist_config_opts) (simp add: static_method_def static_args_def)
qed

text \<open>
  C6: with omit-defaults enabled for the section (\<^verbatim>\<open>methods\<close> for a method, \<^verbatim>\<open>module\<close>
  for a function), a string that \<^verbatim>\<open>arglist\<close> returns is empty or the rendering of
  arguments without any default, positional or keyword; and the outcome of \<^verbatim>\<open>arglist\<close>
  does not depend on the defaults that the descriptor declares. A string is returned
  whenever write-arg-list is readable and the omit-self step does not apply.
\<close>

theorem arglist_omit_defaults:
  assumes al: "allocated h fdef"
    and od: "opt_omit_defaults c (if ismethod then ''methods'' else ''module'') = Inr d"
    and td: "truthy d"
  shows "(\<forall>s. fst (arglist to_source c h fdef ismethod) = Inr s \<longrightarrow>
            s = [] \<or> (\<exists>u. s = rstrip (to_source (ArgumentsAst u))
                          \<and> defaults u = [] \<and> kw_defaults u = []))
       \<and> (\<forall>h2 f2 kds ds.
            allocated h2 f2 \<and> fd_decorator_list f2 = fd_decorator_list fdef
            \<and> read_arguments h2 (fd_args f2)
                = (read_arguments h (fd_args fdef))\<lparr>kw_defaults := kds, defaults := ds\<rparr>
            \<longrightarrow> fst (arglist to_source c h2 f2 ismethod) = fst (arglist to_source c h fdef ismethod))
       \<and> (\<forall>w. opt_write_arglist c (if ismethod then ''methods'' else ''module'') = Inr w
              \<and> omit_self_cond c fdef ismethod = Inr False
            \<longrightarrow> (\<exists>s. fst (arglist to_source c h fdef ismethod) = Inr s))"
proof (intro conjI allI impI)
  fix s assume "fst (arglist to_source c h fdef ismethod) = Inr s"
  then have "arglist_on_value to_source c (read_arguments h (fd_args fdef)) fdef ismethod = Inr s"
    by (simp add: arglist_value [OF al])
  from arglist_on_value_no_defaults [OF od td this]
  show "s = [] \<or> (\<exists>u. s = rstrip (to_source (ArgumentsAst u))
                          \<and> defaults u = [] \<and> kw_defaults u = [])" .
next
  fix h2 f2 kds ds
  let ?v = "read_arguments h (fd_args fdef)"
  assume a: "allocated h2 f2 \<and> fd_decorator_list f2 = fd_decorator_list fdef
            \<and> read_arguments h2 (fd_args f2) = ?v\<lparr>kw_defaults := kds, defaults := ds\<rparr>"
  then have al2: "allocated h2 f2" and dec: "fd_decorator_list f2 = fd_decorator_list fdef"
    and rd: "read_arguments h2 (fd_args f2) = ?v\<lparr>kw_defaults := kds, defaults := ds\<rparr>"
    by simp_all
  have "fst (arglist to_source c h2 f2 ismethod)
      = arglist_on_value to_source c (?v\<lparr>kw_defaults := kds, defaults := ds\<rparr>) fdef ismethod"
    by (simp only: arglist_value [OF al2] rd arglist_on_value_decorators [OF dec])
  also have "\<dots> = arglist_on_value to_source c (?v\<lparr>kw_defaults := [], defaults := []\<rparr>) fdef ismethod"
    by (rule arglist_on_value_cleared [OF od td])
  also have "\<dots> = arglist_on_value to_source c
        (?v\<lparr>kw_defaults := kw_defaults ?v, defaults := defaults ?v\<rparr>) fdef ismethod"
    by (rule arglist_on_value_cleared [OF od td, symmetric])
  also have "\<dots> = fst (arglist to_source c h fdef ismethod)"
    by (simp add: arglist_value [OF al])
  finally show "fst (arglist to_source c h2 f2 ismethod) = fst (arglist to_source c h fdef ismethod)" .
next
  fix w assume "opt_write_arglist c (if ismethod then ''methods'' else ''module'') = Inr w
              \<and> omit_self_cond c fdef ismethod = Inr False"
  then show "\<exists>s. fst (arglist to_source c h fdef ismethod) = Inr s"
    using od by (auto simp: arglist_value [OF al] arglist_on_value_def Let_def)
qed


text \<open>
  C6 at the method \<^verbatim>\<open>f(self, x, y=1)\<close>: the default is printed without a configuration
  and is absent with omit-defaults enabled.
\<close>

theorem arglist_omit_defaults_witness:
  "fst (arglist sample_to_source omit_config sample_store (sample_method []) True) = Inr ''x, y''
   \<and> fst (arglist sample_to_source None sample_store (sample_method []) True) = Inr ''self, x, y=1''
   \<and> (\<exists>u. ''x, y'' = rstrip (sample_to_source (ArgumentsAst u))
           \<and> defaults u = [] \<and> kw_defaults u = [])"
proof -
  have t: "truthy (PBool True)" by simp
  have od: "opt_omit_defaults omit_config (if True then ''methods'' else ''module'') = Inr (PBool True)"
    by (simp add: omit_config_opts)
  note th = arglist_omit_defaults [OF sample_method_store(1) [of "[]"] od t,
      where to_source = sample_to_source]
  have "fst (arglist sample_to_source omit_config sample_store (sample_method []) True)
      = arglist_on_value sample_to_source omit_config sample_args (sample_method []) True"
    by (simp only: arglist_value [OF sample_method_store(1)] sample_method_store(2))
  also have "\<dots> = Inr ''x, y''"
    by (simp add: arglist_on_value_def omit_config_opts omit_self_cond_def is_static_method_def
        sample_method_def sample_args_def params_text_def rstrip_def is_space_def)
  finally have v: "fst (arglist sample_to_source omit_config sample_store (sample_method []) True)
      = Inr ''x, y''" .
  have "fst (arglist sample_to_source None sample_store (sample_method []) True)
      = arglist_on_value sample_to_source None sample_args (sample_method []) True"
    by (simp only: arglist_value [OF sample_method_store(1)] sample_method_store(2))
  also have "\<dots> = Inr ''self, x, y=1''"
    by (simp add: arglist_on_value_def opt_write_arglist_def opt_omit_self_def opt_omit_defaults_def
        omit_self_cond_def sample_args_def params_text_def rstrip_def is_space_def)
  finally have n: "fst (arglist sample_to_source None sample_store (sample_method []) True)
      = Inr ''self, x, y=1''" .
  from th v have "\<exists>u. ''x, y'' = rstrip (sample_to_source (ArgumentsAst u))
           \<and> defaults u = [] \<and> kw_defaults u = []"
    by simp
  with v n show ?thesis by simp
qed

text \<open>
  C9 (as the code has it): for a method without a \<^verbatim>\<open>staticmethod\<close> name decorator, with
  omit-self enabled and the argument lists of methods written (write-arg-list not
  disabled), \<^verbatim>\<open>arglist\<close> raises \<^verbatim>\<open>IndexError\<close> from \<^verbatim>\<open>pop(0)\<close> when the parameter list
  \<^verbatim>\<open>args\<close> of the descriptor is empty, and never raises it when the list is not empty.
\<close>

theorem arglist_omit_self_needs_parameter:
  assumes al: "allocated h fdef"
    and ns: "Name ''staticmethod'' \<notin> set (fd_decorator_list fdef)"
    and os: "opt_omit_self c = Inr v" and tv: "truthy v"
    and wa: "opt_write_arglist c ''methods'' = Inr w" and tw: "truthy w"
  shows "(args (read_arguments h (fd_args fdef)) = []
            \<longrightarrow> fst (arglist to_source c h fdef True) = Inl IndexError)
       \<and> (args (read_arguments h (fd_args fdef)) \<noteq> []
            \<longrightarrow> fst (arglist to_source c h fdef True) \<noteq> Inl IndexError)"
proof -
  have wa': "opt_write_arglist c (if True then ''methods'' else ''module'') = Inr w"
    using wa by simp
  have om: "omit_self_cond c fdef True = Inr True"
    using ns os tv by (simp add: omit_self_cond_def is_static_iff)
  note late = arglist_on_value_late [OF wa' tw om, of to_source "read_arguments h (fd_args fdef)"]
  show ?thesis
  proof (cases "args (read_arguments h (fd_args fdef))")
    case Nil
    then show ?thesis by (simp add: arglist_value [OF al] late)
  next
    case (Cons x xs)
    have "fst (arglist to_source c h fdef True) \<noteq> Inl IndexError"
    proof (cases "node_arg x")
      case (Inl e)
      then have "e = AttributeError" by (cases x) simp_all
      then show ?thesis using Inl Cons by (simp add: arglist_value [OF al] late)
    next
      case (Inr nm)
      show ?thesis
      proof (cases "opt_omit_defaults c ''methods''")
        case (Inl e)
        then have "e = ValueError" by (rule opt_errors(2))
        then show ?thesis using Inl Inr Cons by (simp add: arglist_value [OF al] late)
      next
        case d: (Inr d)
        then show ?thesis using Inr Cons by (simp add: arglist_value [OF al] late)
      qed
    qed
    then show ?thesis using Cons by simp
  qed
qed


text \<open>C9 at the function \<^verbatim>\<open>g()\<close> without parameters and at the method \<^verbatim>\<open>f(self, x, y=1)\<close>.\<close>

theorem arglist_omit_self_needs_parameter_witness:
  "fst (arglist sample_to_source omit_config sample_store bare_method True) = Inl IndexError
   \<and> args (read_arguments sample_store (fd_args bare_method)) = []
   \<and> fst (arglist sample_to_source omit_config sample_store (sample_method []) True) \<noteq> Inl IndexError
   \<and> args (read_arguments sample_store (fd_args (sample_method []))) = [Arg ''self'' None, Arg ''x'' None, Arg ''y'' None]"
proof -
  have t: "truthy (PBool True)" by simp
  have n1: "Name ''staticmethod'' \<notin> set (fd_decorator_list bare_method)"
    by (simp add: bare_method_def)
  have n2: "Name ''staticmethod'' \<notin> set (fd_decorator_list (sample_method []))"
    by (simp add: sample_method_def)
  note a = arglist_omit_self_needs_parameter [OF bare_method_store(1) n1 omit_config_opts(1) t
      omit_config_opts(3) t, where to_source = sample_to_source]
  note b = arglist_omit_self_needs_parameter [OF sample_method_store(1) [of "[]"] n2 omit_config_opts(1) t
      omit_config_opts(3) t, where to_source = sample_to_source]
  from a b show ?thesis
    by (simp add: bare_method_store(2) sample_method_store(2) no_args_def sample_args_def)
qed


text \<open>
  C9 (as stated) fails: with omit-self enabled and the argument lists of methods
  disabled, \<^verbatim>\<open>arglist\<close> returns the empty string for a method without parameters and
  without decorators, and \<^verbatim>\<open>pop(0)\<close> is not reached.
\<close>

theorem arglist_no_parameter_suppressed:
  "args (read_arguments sample_store (fd_args bare_method)) = []
   \<and> fd_decorator_list bare_method = []
   \<and> opt_omit_self no_arglist_config = Inr (PBool True)
   \<and> fst (arglist sample_to_source no_arglist_config sample_store bare_method True) = Inr ''''"
proof -
  have "fst (arglist sample_to_source no_arglist_config sample_store bare_method True)
      = arglist_on_value sample_to_source no_arglist_config no_args bare_method True"
    by (simp only: arglist_value [OF bare_method_store(1)] bare_method_store(2))
  also have "\<dots> = Inr ''''"
    by (simp add: arglist_on_value_def no_arglist_config_opts)
  finally show ?thesis
    by (simp add: bare_method_store(2) no_arglist_config_opts) (simp add: bare_method_def no_args_def)
qed

section \<open>Properties of the module renderer\<close>

text \<open>
  C10: \<^verbatim>\<open>print_codeinfo\<close> fails its assertion, before any output, when there is no
  configuration and when \<^verbatim>\<open>opt_globals\<close> returns a false value (write-globals missing
  or disabled); when \<^verbatim>\<open>opt_globals\<close> returns a true value the assertion does not fail.
\<close>

theorem print_codeinfo_asserts_globals:
  "(config s = None \<longrightarrow>
      print_codeinfo to_source visibility (s, h) codeinfo = Inl AssertionError)
   \<and> (opt_globals (config s) = Inr g \<and> \<not> truthy g \<longrightarrow>
      print_codeinfo to_source visibility (s, h) codeinfo = Inl AssertionError)
   \<and> (opt_globals (config s) = Inr g \<and> truthy g \<longrightarrow>
      print_codeinfo to_source visibility (s, h) codeinfo \<noteq> Inl AssertionError)"
proof (intro conjI impI)
  assume "config s = None"
  then show "print_codeinfo to_source visibility (s, h) codeinfo = Inl AssertionError"
    by (simp add: print_codeinfo_def opt_globals_def)
next
  assume "opt_globals (config s) = Inr g \<and> \<not> truthy g"
  then show "print_codeinfo to_source visibility (s, h) codeinfo = Inl AssertionError"
    by (simp add: print_codeinfo_def)
next
  assume g: "opt_globals (config s) = Inr g \<and> truthy g"
  let ?s1 = "self_output s [''class'', ''__module__'', ''{'']"
  let ?s2 = "foldl (\<lambda>t v. self_output t [TAB @ visibility v @ v]) ?s1 (module_variables codeinfo)"
  show "print_codeinfo to_source visibility (s, h) codeinfo \<noteq> Inl AssertionError"
  proof (cases "codeinfo_functions to_source visibility (?s2, h) (module_functions codeinfo)")
    case (Inl e)
    then have "e = ValueError" by (rule codeinfo_functions_error)
    then show ?thesis using g Inl by (simp add: print_codeinfo_def Let_def)
  next
    case (Inr r)
    then show ?thesis using g by (cases r) (simp add: print_codeinfo_def Let_def)
  qed
qed


text \<open>C10 without a configuration and with write-globals enabled.\<close>

theorem print_codeinfo_asserts_globals_witness:
  "print_codeinfo sample_to_source (\<lambda>nm. ''+'') (PUML_Generator_init None, sample_store) sample_module
     = Inl AssertionError
   \<and> print_codeinfo sample_to_source (\<lambda>nm. ''+'') (PUML_Generator_init globals_config, sample_store)
       sample_module \<noteq> Inl AssertionError"
proof -
  have g: "opt_globals (config (PUML_Generator_init globals_config)) = Inr (PBool True)"
    by (simp add: PUML_Generator_init_def globals_config_def config_of_def opt_globals_def
        cfg_getboolean_def lower_def lower_chr_def)
  from print_codeinfo_asserts_globals [of "PUML_Generator_init None" sample_to_source "\<lambda>nm. ''+''"
      sample_store sample_module "PBool True"]
    print_codeinfo_asserts_globals [of "PUML_Generator_init globals_config" sample_to_source
      "\<lambda>nm. ''+''" sample_store sample_module "PBool True"] g
  show ?thesis by (simp add: PUML_Generator_init_def)
qed

end
